theory Spec2Isabelle
  imports Main "HOL-Library.Multiset"
begin

section \<open>Data model\<close>

text \<open>
  Coordinates, dimensions and priorities are JavaScript numbers in the source; the
  placement scan moves in integer units, and they are modelled as \<^typ>\<open>int\<close>.
  Identifiers, names and zone tags are strings compared with \<^verbatim>\<open>===\<close>.
\<close>

record coordinates =
  width :: int
  depth :: int
  height :: int

record position =
  startCoordinates :: coordinates
  endCoordinates :: coordinates

text \<open>
  The objects the services return or append to the log. Absent (\<^verbatim>\<open>null\<close>) fields are
  \<^const>\<open>None\<close>. They are declared first; their field names are written qualified
  (\<open>placement.itemId\<close>), so that the plain names \<open>itemId\<close>, \<open>containerId\<close> and
  \<open>position\<close> below are those of items, containers and placed records.
\<close>

record placement =
  itemId :: string
  containerId :: string
  position :: position

record rearrangement =
  step :: nat
  action :: string
  itemId :: string
  fromContainer :: "string option"
  fromPosition :: "position option"
  toContainer :: "string option"
  toPosition :: "position option"

record retrievalStep =
  step :: nat
  action :: string
  itemId :: string
  itemName :: string

text \<open>A log entry (models/log.js). The timestamp is the one supplied by the caller;
  \<^const>\<open>None\<close> stands for the clock value \<^verbatim>\<open>new Date()\<close> of the call.\<close>

record log =
  timestamp :: "string option"
  userId :: string
  actionType :: string
  itemId :: string
  toContainer :: string

text \<open>
  The fields of \<^verbatim>\<open>Item\<close> (models/item.js) that the placement, retrieval and
  rearrangement code reads. Mass, expiry date and usage counters are read by none of the
  functions below and are left out.
\<close>

record item =
  itemId :: string
  name :: string
  width :: int
  depth :: int
  height :: int
  priority :: int
  preferredZone :: string

text \<open>An \<^verbatim>\<open>Item\<close> object as the store holds it, with its owning container id and
  position (both \<^verbatim>\<open>null\<close> until the item is placed).\<close>

record storedItem = item +
  containerId :: "string option"
  position :: "position option"

text \<open>
  A record of \<^verbatim>\<open>container.items\<close>: \<^verbatim>\<open>{ ...item, position }\<close>, the fields of the item
  with a position. A placed record is itself usable wherever an item is (the source
  passes \<^verbatim>\<open>lowPriorityItem\<close> to \<^verbatim>\<open>findPositionInContainer\<close> and \<^verbatim>\<open>addItem\<close>), which
  the record extension gives.
\<close>

record placedItem = item +
  position :: position

record container =
  containerId :: string
  zone :: string
  width :: int
  depth :: int
  height :: int
  items :: "placedItem list"

section \<open>Container (Model/container.js)\<close>

definition getTotalVolume :: "container \<Rightarrow> int" where
  "getTotalVolume this = container.width this * container.depth this * container.height this"

definition getOccupiedVolume :: "container \<Rightarrow> int" where
  "getOccupiedVolume this =
     foldl (\<lambda>total it. total + item.width it * item.depth it * item.height it) 0 (items this)"

definition getAvailableVolume :: "container \<Rightarrow> int" where
  "getAvailableVolume this = getTotalVolume this - getOccupiedVolume this"

definition itemsOverlap :: "position \<Rightarrow> position \<Rightarrow> bool" where
  "itemsOverlap pos1 pos2 = (\<not> (
     coordinates.width (endCoordinates pos1) \<le> coordinates.width (startCoordinates pos2) \<or>
     coordinates.width (startCoordinates pos1) \<ge> coordinates.width (endCoordinates pos2) \<or>
     coordinates.depth (endCoordinates pos1) \<le> coordinates.depth (startCoordinates pos2) \<or>
     coordinates.depth (startCoordinates pos1) \<ge> coordinates.depth (endCoordinates pos2) \<or>
     coordinates.height (endCoordinates pos1) \<le> coordinates.height (startCoordinates pos2) \<or>
     coordinates.height (startCoordinates pos1) \<ge> coordinates.height (endCoordinates pos2)))"

text \<open>\<^verbatim>\<open>canFitItem(item, position)\<close>: the bounds test, then the loop over the existing
  records that returns false at the first overlap. The item argument is not read.\<close>

definition canFitItem :: "container \<Rightarrow> 'a item_scheme \<Rightarrow> position \<Rightarrow> bool" where
  "canFitItem this it pos =
     (if coordinates.width (startCoordinates pos) < 0 \<or>
         coordinates.depth (startCoordinates pos) < 0 \<or>
         coordinates.height (startCoordinates pos) < 0 \<or>
         coordinates.width (endCoordinates pos) > container.width this \<or>
         coordinates.depth (endCoordinates pos) > container.depth this \<or>
         coordinates.height (endCoordinates pos) > container.height this
      then False
      else list_all (\<lambda>existingItem. \<not> itemsOverlap (position existingItem) pos) (items this))"

text \<open>The pushed record \<^verbatim>\<open>{ ...item, position }\<close>: the item's fields and the position.
  Any other field the object passed carries (a stored item's container id) is read from
  no record and is dropped.\<close>

definition placed :: "'a item_scheme \<Rightarrow> position \<Rightarrow> placedItem" where
  "placed it pos = item.extend (item.truncate it) (placedItem.fields pos)"

text \<open>\<^verbatim>\<open>addItem\<close> mutates the container and returns a flag; the model returns the
  container after the call and the flag.\<close>

definition addItem :: "container \<Rightarrow> 'a item_scheme \<Rightarrow> position \<Rightarrow> container \<times> bool" where
  "addItem this it pos =
     (if canFitItem this it pos
      then (this\<lparr>items := items this @ [placed it pos]\<rparr>, True)
      else (this, False))"

text \<open>\<^verbatim>\<open>findIndex\<close> followed by \<^verbatim>\<open>splice(index, 1)\<close>: the first record with the id goes.\<close>

fun spliceFirst :: "string \<Rightarrow> placedItem list \<Rightarrow> placedItem list" where
  "spliceFirst i [] = []"
| "spliceFirst i (x # xs) = (if itemId x = i then xs else x # spliceFirst i xs)"

definition findItem :: "container \<Rightarrow> string \<Rightarrow> placedItem option" where
  "findItem this i = find (\<lambda>it. itemId it = i) (items this)"

definition removeItem :: "container \<Rightarrow> string \<Rightarrow> container \<times> placedItem option" where
  "removeItem this i =
     (case find (\<lambda>it. itemId it = i) (items this) of
        None \<Rightarrow> (this, None)
      | Some removedItem \<Rightarrow> (this\<lparr>items := spliceFirst i (items this)\<rparr>, Some removedItem))"

definition getItemsToMove :: "container \<Rightarrow> string \<Rightarrow> placedItem list" where
  "getItemsToMove this i =
     (case findItem this i of
        None \<Rightarrow> []
      | Some targetItem \<Rightarrow>
          filter (\<lambda>it.
            if itemId it = i then False
            else coordinates.depth (startCoordinates (position it))
                   < coordinates.depth (startCoordinates (position targetItem)) \<and>
                 \<not> (coordinates.width (endCoordinates (position it))
                        \<le> coordinates.width (startCoordinates (position targetItem)) \<or>
                    coordinates.width (startCoordinates (position it))
                        \<ge> coordinates.width (endCoordinates (position targetItem)) \<or>
                    coordinates.height (endCoordinates (position it))
                        \<le> coordinates.height (startCoordinates (position targetItem)) \<or>
                    coordinates.height (startCoordinates (position it))
                        \<ge> coordinates.height (endCoordinates (position targetItem))))
            (items this))"

subsection \<open>Properties stated over containers\<close>

text \<open>No two distinct records of the container overlap (separating-axis test).\<close>

definition no_overlap :: "container \<Rightarrow> bool" where
  "no_overlap c =
     list_all (\<lambda>i. list_all (\<lambda>j. i \<noteq> j \<longrightarrow>
        \<not> itemsOverlap (position (items c ! i)) (position (items c ! j)))
        [0..<length (items c)]) [0..<length (items c)]"

text \<open>The item ids of the records of a container, in insertion order.\<close>

definition itemIds :: "container \<Rightarrow> string list" where
  "itemIds c = map itemId (items c)"

text \<open>The blocking test in the words of the specification: the open intervals of two boxes
  on an axis meet.\<close>

definition projectionsOverlap :: "int \<Rightarrow> int \<Rightarrow> int \<Rightarrow> int \<Rightarrow> bool" where
  "projectionsOverlap s1 e1 s2 e2 = (s1 < e2 \<and> s2 < e1)"

definition blocks :: "placedItem \<Rightarrow> placedItem \<Rightarrow> bool" where
  "blocks other target =
     (coordinates.depth (startCoordinates (position other))
        < coordinates.depth (startCoordinates (position target)) \<and>
      projectionsOverlap
        (coordinates.width (startCoordinates (position other)))
        (coordinates.width (endCoordinates (position other)))
        (coordinates.width (startCoordinates (position target)))
        (coordinates.width (endCoordinates (position target))) \<and>
      projectionsOverlap
        (coordinates.height (startCoordinates (position other)))
        (coordinates.height (endCoordinates (position other)))
        (coordinates.height (startCoordinates (position target)))
        (coordinates.height (endCoordinates (position target))))"

definition itemsBlocking_spec :: "container \<Rightarrow> string \<Rightarrow> placedItem list" where
  "itemsBlocking_spec c target =
     (case find (\<lambda>it. itemId it = target) (items c) of
        None \<Rightarrow> []
      | Some t \<Rightarrow> filter (\<lambda>it. itemId it \<noteq> target \<and> blocks it t) (items c))"

section \<open>The store (services/database.js)\<close>

text \<open>
  The in-memory store: two \<^verbatim>\<open>Map\<close>s keyed by id and the log array. The current date is
  read by none of the functions below and is left out. Containers are always stored under
  their own \<^verbatim>\<open>containerId\<close> and items under their own \<^verbatim>\<open>itemId\<close>.
\<close>

record database =
  items :: "string \<rightharpoonup> storedItem"
  containers :: "string \<rightharpoonup> container"
  logs :: "log list"

definition getItem :: "database \<Rightarrow> string \<Rightarrow> storedItem option" where
  "getItem db i = database.items db i"

definition updateItem :: "database \<Rightarrow> storedItem \<Rightarrow> database" where
  "updateItem db it = db\<lparr>database.items := (database.items db)(item.itemId it \<mapsto> it)\<rparr>"

definition getContainer :: "database \<Rightarrow> string \<Rightarrow> container option" where
  "getContainer db i = containers db i"

definition updateContainer :: "database \<Rightarrow> container \<Rightarrow> database" where
  "updateContainer db c = db\<lparr>containers := (containers db)(container.containerId c \<mapsto> c)\<rparr>"

definition addLog :: "database \<Rightarrow> log \<Rightarrow> database" where
  "addLog db l = db\<lparr>logs := logs db @ [l]\<rparr>"

section \<open>Placement service (services/placement-service.js)\<close>

subsection \<open>findPositionInContainer\<close>

text \<open>The candidate position with origin \<open>(x, y, z)\<close>: width \<open>x\<close>, depth \<open>y\<close>,
  height \<open>z\<close>.\<close>

definition positionAt :: "'a item_scheme \<Rightarrow> int \<Rightarrow> int \<Rightarrow> int \<Rightarrow> position" where
  "positionAt it x y z =
     \<lparr> startCoordinates =
         \<lparr> coordinates.width = x, coordinates.depth = y, coordinates.height = z \<rparr>,
       endCoordinates =
         \<lparr> coordinates.width = x + item.width it, coordinates.depth = y + item.depth it,
           coordinates.height = z + item.height it \<rparr> \<rparr>"

text \<open>The three nested \<^verbatim>\<open>while\<close> loops, innermost first. Each inner loop is entered
  with its counter at 0: the counters start at 0 and are reset after every inner loop.\<close>

function scanWidth :: "'a item_scheme \<Rightarrow> container \<Rightarrow> int \<Rightarrow> int \<Rightarrow> int \<Rightarrow> position option" where
  "scanWidth it c z y x =
     (if x + item.width it \<le> container.width c
      then (if canFitItem c it (positionAt it x y z) then Some (positionAt it x y z)
            else scanWidth it c z y (x + 1))
      else None)"
  by pat_completeness auto
termination
  by (relation "measure (\<lambda>(it, c, z, y, x). nat (container.width c - item.width it - x + 1))")
     auto

function scanDepth :: "'a item_scheme \<Rightarrow> container \<Rightarrow> int \<Rightarrow> int \<Rightarrow> position option" where
  "scanDepth it c z y =
     (if y + item.depth it \<le> container.depth c
      then (case scanWidth it c z y 0 of
              Some pos \<Rightarrow> Some pos
            | None \<Rightarrow> scanDepth it c z (y + 1))
      else None)"
  by pat_completeness auto
termination
  by (relation "measure (\<lambda>(it, c, z, y). nat (container.depth c - item.depth it - y + 1))")
     auto

function scanHeight :: "'a item_scheme \<Rightarrow> container \<Rightarrow> int \<Rightarrow> position option" where
  "scanHeight it c z =
     (if z + item.height it \<le> container.height c
      then (case scanDepth it c z 0 of
              Some pos \<Rightarrow> Some pos
            | None \<Rightarrow> scanHeight it c (z + 1))
      else None)"
  by pat_completeness auto
termination
  by (relation "measure (\<lambda>(it, c, z). nat (container.height c - item.height it - z + 1))")
     auto

definition findPositionInContainer :: "'a item_scheme \<Rightarrow> container \<Rightarrow> position option" where
  "findPositionInContainer it c =
     (if item.width it > container.width c \<or> item.depth it > container.depth c \<or>
         item.height it > container.height c
      then None
      else scanHeight it c 0)"

subsection \<open>rearrangeForUnplacedItems\<close>

text \<open>
  The containers of \<^verbatim>\<open>containerMap\<close> are the list of its values in insertion order; a
  container object is identified by its index in that list, and a mutation of the object
  is an update of the list at that index. The state of the pass is the map together with
  the two output arrays and the step counter.
\<close>

text \<open>The object \<^verbatim>\<open>findOptimalPlacement\<close> returns; its field names are written
  qualified (\<open>placementResult.placements\<close>), the plain names being those of the state of
  the pass.\<close>

record placementResult =
  success :: bool
  placements :: "placement list"
  rearrangements :: "rearrangement list"

record resolverState =
  containerMap :: "container list"
  placements :: "placement list"
  rearrangements :: "rearrangement list"
  step :: nat

text \<open>\<^verbatim>\<open>Array.from(containerMap.values()).sort((a, b) => b.getAvailableVolume() -
  a.getAvailableVolume())\<close>: largest available volume first. \<^verbatim>\<open>Array.prototype.sort\<close> is
  stable, and so is \<^const>\<open>sort_key\<close>: containers of equal volume keep their order.\<close>

definition sortedContainers :: "container list \<Rightarrow> nat list" where
  "sortedContainers cs = sort_key (\<lambda>k. - getAvailableVolume (cs ! k)) [0..<length cs]"

text \<open>The occupants whose stored priority is below the item's, lowest first (stable). The
  sort reads the stored priority of records that passed the filter, so the lookup in the
  comparator always finds the item.\<close>

definition lowPriorityItems :: "database \<Rightarrow> 'a item_scheme \<Rightarrow> container \<Rightarrow> placedItem list" where
  "lowPriorityItems db it c =
     sort_key (\<lambda>containerItem. case getItem db (itemId containerItem) of
                                  Some dbItem \<Rightarrow> priority dbItem | None \<Rightarrow> 0)
       (filter (\<lambda>containerItem. case getItem db (itemId containerItem) of
                                   None \<Rightarrow> False
                                 | Some dbItem \<Rightarrow> priority dbItem < priority it)
          (container.items c))"

text \<open>The search for a new home of the evicted record among the other containers
  (those whose id differs from the current container's). Returns the flag
  \<^verbatim>\<open>newHome\<close>.\<close>

fun findNewHome :: "string \<Rightarrow> placedItem \<Rightarrow> nat list \<Rightarrow> resolverState \<Rightarrow> resolverState \<times> bool" where
  "findNewHome cid lowPriorityItem [] st = (st, False)"
| "findNewHome cid lowPriorityItem (k # ks) st =
     (let otherContainer = containerMap st ! k in
      if containerId otherContainer = cid then findNewHome cid lowPriorityItem ks st
      else case findPositionInContainer lowPriorityItem otherContainer of
             Some otherPosition \<Rightarrow>
               (st\<lparr> rearrangements := rearrangements st @
                       [\<lparr> rearrangement.step = step st, rearrangement.action = ''place'',
                          rearrangement.itemId = itemId lowPriorityItem,
                          fromContainer = None, fromPosition = None,
                          toContainer = Some (containerId otherContainer),
                          toPosition = Some otherPosition \<rparr>],
                    step := step st + 1,
                    containerMap := (containerMap st)
                       [k := fst (addItem otherContainer lowPriorityItem otherPosition)] \<rparr>,
                True)
           | None \<Rightarrow> findNewHome cid lowPriorityItem ks st)"

text \<open>The loop over the low-priority occupants of the container at index \<open>k\<close>. The
  occupant is removed; if the item then fits, the steps are recorded, the item is added,
  the occupant is re-homed or added back at its old position, and the loop is left;
  otherwise the occupant is added back and the next one is tried.\<close>

fun tryEvictions :: "'a item_scheme \<Rightarrow> nat list \<Rightarrow> nat \<Rightarrow> placedItem list \<Rightarrow> resolverState \<Rightarrow> resolverState" where
  "tryEvictions it sortedIdx k [] st = st"
| "tryEvictions it sortedIdx k (lowPriorityItem # rest) st =
     (let c = fst (removeItem (containerMap st ! k) (itemId lowPriorityItem)) in
      case findPositionInContainer it c of
        Some newPosition \<Rightarrow>
          (let st1 = st\<lparr> rearrangements := rearrangements st @
                          [\<lparr> rearrangement.step = step st, rearrangement.action = ''remove'',
                             rearrangement.itemId = itemId lowPriorityItem,
                             fromContainer = Some (containerId c),
                             fromPosition = Some (position lowPriorityItem),
                             toContainer = None, toPosition = None \<rparr>,
                           \<lparr> rearrangement.step = step st + 1, rearrangement.action = ''place'',
                             rearrangement.itemId = itemId it,
                             fromContainer = None, fromPosition = None,
                             toContainer = Some (containerId c),
                             toPosition = Some newPosition \<rparr>],
                        step := step st + 2,
                        placements := placements st @
                          [\<lparr> placement.itemId = itemId it,
                             placement.containerId = containerId c,
                             placement.position = newPosition \<rparr>],
                        containerMap := (containerMap st)[k := fst (addItem c it newPosition)] \<rparr>;
               (st2, newHome) = findNewHome (containerId c) lowPriorityItem sortedIdx st1
           in if newHome then st2
              else st2\<lparr> rearrangements := rearrangements st2 @
                          [\<lparr> rearrangement.step = step st2, rearrangement.action = ''place'',
                             rearrangement.itemId = itemId lowPriorityItem,
                             fromContainer = None, fromPosition = None,
                             toContainer = Some (containerId c),
                             toPosition = Some (position lowPriorityItem) \<rparr>],
                        step := step st2 + 1,
                        containerMap := (containerMap st2)
                          [k := fst (addItem (containerMap st2 ! k) lowPriorityItem
                                       (position lowPriorityItem))] \<rparr>)
      | None \<Rightarrow>
          tryEvictions it sortedIdx k rest
            (st\<lparr> containerMap := (containerMap st)
                    [k := fst (addItem c lowPriorityItem (position lowPriorityItem))] \<rparr>))"

text \<open>The loop over the sorted containers for one unplaced item. A direct fit places the
  item and leaves the loop (\<^verbatim>\<open>break\<close>); otherwise the evictions are tried and the loop
  goes on to the next container: the \<^verbatim>\<open>break\<close> after a successful eviction leaves the
  loop over the occupants only.\<close>

fun tryContainers :: "database \<Rightarrow> 'a item_scheme \<Rightarrow> nat list \<Rightarrow> nat list \<Rightarrow> resolverState \<Rightarrow> resolverState" where
  "tryContainers db it sortedIdx [] st = st"
| "tryContainers db it sortedIdx (k # ks) st =
     (let c = containerMap st ! k in
      case findPositionInContainer it c of
        Some pos \<Rightarrow>
          st\<lparr> placements := placements st @
                 [\<lparr> placement.itemId = itemId it, placement.containerId = containerId c,
                    placement.position = pos \<rparr>],
               containerMap := (containerMap st)[k := fst (addItem c it pos)] \<rparr>
      | None \<Rightarrow>
          tryContainers db it sortedIdx ks
            (tryEvictions it sortedIdx k (lowPriorityItems db it c) st))"

definition resolveItem :: "database \<Rightarrow> resolverState \<Rightarrow> 'a item_scheme \<Rightarrow> resolverState" where
  "resolveItem db st it =
     (let sortedIdx = sortedContainers (containerMap st) in tryContainers db it sortedIdx sortedIdx st)"

text \<open>The whole pass, with the containers as it leaves them.\<close>

definition rearrangeForUnplacedItems_state ::
  "database \<Rightarrow> 'a item_scheme list \<Rightarrow> container list \<Rightarrow> resolverState" where
  "rearrangeForUnplacedItems_state db unplacedItems cmap =
     foldl (resolveItem db)
       \<lparr> containerMap = cmap, placements = [], rearrangements = [], step = 1 \<rparr> unplacedItems"

text \<open>What the method returns: \<^verbatim>\<open>{ placements, rearrangements }\<close>.\<close>

definition rearrangeForUnplacedItems ::
  "database \<Rightarrow> 'a item_scheme list \<Rightarrow> container list \<Rightarrow> placement list \<times> rearrangement list" where
  "rearrangeForUnplacedItems db unplacedItems cmap =
     (let st = rearrangeForUnplacedItems_state db unplacedItems cmap
      in (placements st, rearrangements st))"

subsection \<open>findOptimalPlacement\<close>

text \<open>\<^verbatim>\<open>containerMap.set(containerId, c)\<close> on the list of values: an existing key keeps
  its place and takes the new value, a new key goes to the end.\<close>

definition mapSet :: "container list \<Rightarrow> container \<Rightarrow> container list" where
  "mapSet m c =
     (if containerId c \<in> set (map containerId m)
      then map (\<lambda>e. if containerId e = containerId c then c else e) m
      else m @ [c])"

text \<open>The working copies: \<^verbatim>\<open>new Container({ ...container, items: [] })\<close> for each
  container supplied.\<close>

definition workingCopies :: "container list \<Rightarrow> container list" where
  "workingCopies cs = foldl (\<lambda>m c. mapSet m (c\<lparr>container.items := []\<rparr>)) [] cs"

text \<open>One of the two loops over candidate containers of the first pass: the first
  container with a position takes the item. Returns the flag \<^verbatim>\<open>placed\<close>.\<close>

fun placeFirstFit ::
  "'a item_scheme \<Rightarrow> nat list \<Rightarrow> container list \<times> placement list \<Rightarrow>
     (container list \<times> placement list) \<times> bool" where
  "placeFirstFit it [] (cmap, ps) = ((cmap, ps), False)"
| "placeFirstFit it (k # ks) (cmap, ps) =
     (case findPositionInContainer it (cmap ! k) of
        Some pos \<Rightarrow>
          ((cmap[k := fst (addItem (cmap ! k) it pos)],
            ps @ [\<lparr> placement.itemId = itemId it,
                    placement.containerId = containerId (cmap ! k),
                    placement.position = pos \<rparr>]),
           True)
      | None \<Rightarrow> placeFirstFit it ks (cmap, ps))"

text \<open>The body of the first pass for one item: the containers of the preferred zone,
  then the containers of every other zone, then the list of unplaced items.\<close>

definition placeOne ::
  "container list \<times> placement list \<times> 'a item_scheme list \<Rightarrow> 'a item_scheme \<Rightarrow>
     container list \<times> placement list \<times> 'a item_scheme list" where
  "placeOne acc it =
     (case acc of (cmap, ps, unplacedItems) \<Rightarrow>
        let preferredContainers =
              filter (\<lambda>k. zone (cmap ! k) = preferredZone it) [0..<length cmap] in
        case placeFirstFit it preferredContainers (cmap, ps) of
          ((cmap1, ps1), True) \<Rightarrow> (cmap1, ps1, unplacedItems)
        | ((cmap1, ps1), False) \<Rightarrow>
            let allContainers =
                  filter (\<lambda>k. zone (cmap1 ! k) \<noteq> preferredZone it) [0..<length cmap1] in
            case placeFirstFit it allContainers (cmap1, ps1) of
              ((cmap2, ps2), True) \<Rightarrow> (cmap2, ps2, unplacedItems)
            | ((cmap2, ps2), False) \<Rightarrow> (cmap2, ps2, unplacedItems @ [it]))"

text \<open>The first pass over the items sorted by priority, highest first (stable).\<close>

definition firstPass ::
  "'a item_scheme list \<Rightarrow> container list \<Rightarrow>
     container list \<times> placement list \<times> 'a item_scheme list" where
  "firstPass its cs =
     foldl placeOne (workingCopies cs, [], []) (sort_key (\<lambda>it. - priority it) its)"

text \<open>The containers of the working map when the method returns (the method itself
  drops them).\<close>

definition findOptimalPlacement_containers ::
  "database \<Rightarrow> 'a item_scheme list \<Rightarrow> container list \<Rightarrow> container list" where
  "findOptimalPlacement_containers db its cs =
     (case firstPass its cs of (cmap, ps, unplacedItems) \<Rightarrow>
        if length unplacedItems > 0
        then containerMap (rearrangeForUnplacedItems_state db unplacedItems cmap)
        else cmap)"

definition findOptimalPlacement ::
  "database \<Rightarrow> 'a item_scheme list \<Rightarrow> container list \<Rightarrow> placementResult" where
  "findOptimalPlacement db its cs =
     (case firstPass its cs of (cmap, ps, unplacedItems) \<Rightarrow>
        let (rp, rr) = (if length unplacedItems > 0
                        then rearrangeForUnplacedItems db unplacedItems cmap
                        else ([], []))
        in \<lparr> success = (length unplacedItems = 0 \<or> length rr > 0),
             placementResult.placements = ps @ rp,
             placementResult.rearrangements = rr \<rparr>)"

section \<open>Retrieval service (services/retrieval-service.js)\<close>

text \<open>\<^verbatim>\<open>db.getItem(itemId).name\<close> throws a \<^verbatim>\<open>TypeError\<close> when the store has no such
  item.\<close>

datatype error = TypeError

subsection \<open>calculateRetrievalSteps\<close>

text \<open>The same method body is in the waste service (services/waste-service.js). The
  first loop emits \<^verbatim>\<open>remove\<close> and \<^verbatim>\<open>setAside\<close> for each blocking record, numbered from
  \<open>n\<close>.\<close>

fun removeLoop :: "nat \<Rightarrow> placedItem list \<Rightarrow> retrievalStep list" where
  "removeLoop n [] = []"
| "removeLoop n (it # its) =
     \<lparr> retrievalStep.step = n, retrievalStep.action = ''remove'',
       retrievalStep.itemId = itemId it, itemName = name it \<rparr> #
     \<lparr> retrievalStep.step = n + 1, retrievalStep.action = ''setAside'',
       retrievalStep.itemId = itemId it, itemName = name it \<rparr> #
     removeLoop (n + 2) its"

text \<open>The last loop, \<^verbatim>\<open>for (let i = itemsToMove.length - 1; i >= 0; i--)\<close>: the argument
  counts the records still to visit, so the record read is \<open>itemsToMove ! i\<close> for the
  source's \<open>i\<close>.\<close>

fun placeBackLoop :: "placedItem list \<Rightarrow> nat \<Rightarrow> nat \<Rightarrow> retrievalStep list" where
  "placeBackLoop itemsToMove 0 n = []"
| "placeBackLoop itemsToMove (Suc i) n =
     \<lparr> retrievalStep.step = n, retrievalStep.action = ''placeBack'',
       retrievalStep.itemId = itemId (itemsToMove ! i), itemName = name (itemsToMove ! i) \<rparr> #
     placeBackLoop itemsToMove i (n + 1)"

definition calculateRetrievalSteps ::
  "database \<Rightarrow> string \<Rightarrow> container \<Rightarrow> error + retrievalStep list" where
  "calculateRetrievalSteps db i c =
     (let itemsToMove = getItemsToMove c i in
      if length itemsToMove = 0
      then (case getItem db i of
              None \<Rightarrow> Inl TypeError
            | Some target \<Rightarrow>
                Inr [\<lparr> retrievalStep.step = 1, retrievalStep.action = ''retrieve'',
                       retrievalStep.itemId = i, itemName = name target \<rparr>])
      else (case getItem db i of
              None \<Rightarrow> Inl TypeError
            | Some target \<Rightarrow>
                Inr (removeLoop 1 itemsToMove @
                     [\<lparr> retrievalStep.step = 1 + 2 * length itemsToMove,
                        retrievalStep.action = ''retrieve'',
                        retrievalStep.itemId = i, itemName = name target \<rparr>] @
                     placeBackLoop itemsToMove (length itemsToMove)
                       (2 + 2 * length itemsToMove))))"

text \<open>The step list in the words of the specification, as (action, item id) pairs: a
  \<^verbatim>\<open>remove\<close> and a \<^verbatim>\<open>setAside\<close> for each blocking item in order, the \<^verbatim>\<open>retrieve\<close> of the
  target, a \<^verbatim>\<open>placeBack\<close> for each blocking item in reverse order.\<close>

definition stepsToRetrieve_spec :: "string \<Rightarrow> placedItem list \<Rightarrow> (string \<times> string) list" where
  "stepsToRetrieve_spec target blocking =
     concat (map (\<lambda>b. [(''remove'', itemId b), (''setAside'', itemId b)]) blocking) @
     [(''retrieve'', target)] @
     map (\<lambda>b. (''placeBack'', itemId b)) (rev blocking)"

definition actionAndId :: "retrievalStep \<Rightarrow> string \<times> string" where
  "actionAndId s = (retrievalStep.action s, retrievalStep.itemId s)"

definition countAction :: "string \<Rightarrow> retrievalStep list \<Rightarrow> nat" where
  "countAction a steps = length (filter (\<lambda>s. retrievalStep.action s = a) steps)"

subsection \<open>placeItem\<close>

text \<open>JavaScript truthiness of an optional string: \<^verbatim>\<open>null\<close>, \<^verbatim>\<open>undefined\<close> and the
  empty string are false.\<close>

definition truthy :: "string option \<Rightarrow> bool" where
  "truthy s = (case s of None \<Rightarrow> False | Some v \<Rightarrow> v \<noteq> [])"

definition createPlacementLog :: "string \<Rightarrow> string \<Rightarrow> string \<Rightarrow> log" where
  "createPlacementLog u i cid =
     \<lparr> timestamp = None, userId = u, actionType = ''placement'', log.itemId = i,
       log.toContainer = cid \<rparr>"

text \<open>
  The three early returns come before any write. On the remaining path the item leaves its
  old container, takes the new container id and position, and is added to the target
  container. The target and the old container are the same object when their ids are
  equal, so the record is then added to the container as the removal left it.
\<close>

definition placeItem ::
  "database \<Rightarrow> string \<Rightarrow> string \<Rightarrow> string option \<Rightarrow> string \<Rightarrow> position \<Rightarrow> database \<times> bool" where
  "placeItem db i u ts cid pos =
     (case getItem db i of
        None \<Rightarrow> (db, False)
      | Some it \<Rightarrow>
          (case getContainer db cid of
             None \<Rightarrow> (db, False)
           | Some c \<Rightarrow>
               if \<not> canFitItem c it pos then (db, False)
               else
                 let old = (if truthy (storedItem.containerId it)
                            then (case storedItem.containerId it of
                                    Some oid \<Rightarrow> getContainer db oid | None \<Rightarrow> None)
                            else None);
                     db1 = (case old of
                              Some oldContainer \<Rightarrow>
                                updateContainer db (fst (removeItem oldContainer i))
                            | None \<Rightarrow> db);
                     c1 = (case old of
                             Some oldContainer \<Rightarrow>
                               if containerId oldContainer = containerId c
                               then fst (removeItem oldContainer i) else c
                           | None \<Rightarrow> c);
                     it1 = it\<lparr> storedItem.containerId := Some cid,
                              storedItem.position := Some pos \<rparr>;
                     db2 = updateItem db1 it1;
                     db3 = updateContainer db2 (fst (addItem c1 it1 pos));
                     l = createPlacementLog u i cid;
                     db4 = addLog db3 (if truthy ts then l\<lparr>timestamp := ts\<rparr> else l)
                 in (db4, True)))"

section \<open>Scan order and example inputs\<close>

text \<open>The order in which \<^const>\<open>findPositionInContainer\<close> visits origins \<open>(x, y, z)\<close>:
  height outermost, depth in the middle, width innermost.\<close>

definition precedes :: "int \<times> int \<times> int \<Rightarrow> int \<times> int \<times> int \<Rightarrow> bool" where
  "precedes a b =
     (case a of (x', y', z') \<Rightarrow> case b of (x, y, z) \<Rightarrow>
        z' < z \<or> (z' = z \<and> (y' < y \<or> (y' = y \<and> x' < x))))"

text \<open>All item ids held by a list of containers, with repetitions.\<close>

definition allItemIds :: "container list \<Rightarrow> string list" where
  "allItemIds cs = concat (map itemIds cs)"

text \<open>Builders for the concrete inputs used below: an item of zone \<open>Z\<close> named after
  its id, a container of zone \<open>Z\<close>, an unplaced stored item, and a store holding the given
  items and containers.\<close>

definition box :: "string \<Rightarrow> int \<Rightarrow> int \<Rightarrow> int \<Rightarrow> int \<Rightarrow> item" where
  "box i w d h p =
     \<lparr> itemId = i, name = i, item.width = w, item.depth = d, item.height = h,
       priority = p, preferredZone = ''Z'' \<rparr>"

definition bin :: "string \<Rightarrow> int \<Rightarrow> int \<Rightarrow> int \<Rightarrow> placedItem list \<Rightarrow> container" where
  "bin i w d h xs =
     \<lparr> containerId = i, zone = ''Z'', container.width = w, container.depth = d,
       container.height = h, container.items = xs \<rparr>"

definition stored :: "item \<Rightarrow> storedItem" where
  "stored it = item.extend it (storedItem.fields None None)"

definition storeOf :: "item list \<Rightarrow> container list \<Rightarrow> database" where
  "storeOf its cs =
     \<lparr> database.items = map_of (map (\<lambda>it. (itemId it, stored it)) its),
       containers = map_of (map (\<lambda>c. (containerId c, c)) cs),
       logs = [] \<rparr>"

text \<open>The scenario of the specification: container \<open>C1\<close> of 10 x 10 x 10 holding item
  \<open>A\<close> of 4 x 4 x 4 at the origin, and a second item \<open>B\<close> of 4 x 4 x 4.\<close>

definition itemA :: item where
  "itemA = box ''A'' 4 4 4 5"

definition itemB :: item where
  "itemB = box ''B'' 4 4 4 3"

definition containerWithA :: container where
  "containerWithA = bin ''C1'' 10 10 10 [placed itemA (positionAt itemA 0 0 0)]"

text \<open>A shelf where \<open>X\<close> (depth 4 to 8) stands behind \<open>Y\<close> (depth 0 to 2) and \<open>Z\<close>
  (depth 2 to 4), with \<open>W\<close> beside them; the records are in the order \<open>Y, X, Z, W\<close>.\<close>

definition recY :: placedItem where
  "recY = placed (box ''Y'' 4 2 4 1) (positionAt (box ''Y'' 4 2 4 1) 0 0 0)"

definition recX :: placedItem where
  "recX = placed (box ''X'' 4 4 4 1) (positionAt (box ''X'' 4 4 4 1) 0 4 0)"

definition recZ :: placedItem where
  "recZ = placed (box ''Z'' 4 2 4 1) (positionAt (box ''Z'' 4 2 4 1) 0 2 0)"

definition recW :: placedItem where
  "recW = placed (box ''W'' 4 4 4 1) (positionAt (box ''W'' 4 4 4 1) 4 0 0)"

definition shelf :: container where
  "shelf = bin ''C1'' 10 10 10 [recY, recX, recZ, recW]"

definition shelfStore :: database where
  "shelfStore =
     storeOf [box ''Y'' 4 2 4 1, box ''X'' 4 4 4 1, box ''Z'' 4 2 4 1, box ''W'' 4 4 4 1] [shelf]"

text \<open>A full container: \<open>L\<close> of priority 1 fills \<open>C1\<close>; \<open>H\<close> of priority 9 has the
  same size. The store knows \<open>L\<close> with priority 1.\<close>

definition itemL :: item where
  "itemL = box ''L'' 10 10 10 1"

definition itemH :: item where
  "itemH = box ''H'' 10 10 10 9"

definition fullContainer :: container where
  "fullContainer = bin ''C1'' 10 10 10 [placed itemL (positionAt itemL 0 0 0)]"

definition storeWithL :: database where
  "storeWithL = storeOf [itemL] []"

text \<open>Two columns: \<open>C1\<close> of height 7 holds the unit cube \<open>l\<close> at height 3 to 4, \<open>C2\<close> of
  height 5 is empty, and \<open>h\<close> has height 4.\<close>

definition cubeL :: item where
  "cubeL = box ''l'' 1 1 1 1"

definition columnH :: item where
  "columnH = box ''h'' 1 1 4 9"

definition twoColumns :: "container list" where
  "twoColumns =
     [bin ''C1'' 1 1 7 [placed cubeL (positionAt cubeL 0 0 3)], bin ''C2'' 1 1 5 []]"

definition storeWithCube :: database where
  "storeWithCube = storeOf [cubeL] []"

text \<open>A batch for one empty container \<open>C1\<close> of 10 x 10 x 10: \<open>L\<close> resubmitted with
  priority 10 (the store still has it with priority 1), \<open>H\<close>, and \<open>X\<close> of 20 x 20 x 20,
  which fits in no container.\<close>

definition batch :: "item list" where
  "batch = [box ''L'' 10 10 10 10, itemH, box ''X'' 20 20 20 8]"

definition emptyC1 :: container where
  "emptyC1 = bin ''C1'' 10 10 10 []"


text \<open>A store with the container \<open>C1\<close> holding \<open>A\<close> and the unplaced items \<open>A\<close> and
  \<open>B\<close>.\<close>

definition smallStore :: database where
  "smallStore = storeOf [itemA, itemB] [containerWithA]"

text \<open>The (action, item id) pairs of a rearrangement transcript and the (item id,
  container id) pairs of a placement list.\<close>

definition actionsOf :: "rearrangement list \<Rightarrow> (string \<times> string) list" where
  "actionsOf rs = map (\<lambda>r. (rearrangement.action r, rearrangement.itemId r)) rs"

definition placedIn :: "placement list \<Rightarrow> (string \<times> string) list" where
  "placedIn ps = map (\<lambda>p. (placement.itemId p, placement.containerId p)) ps"

text \<open>Two empty containers of 10 x 10 x 10 and a batch of three items of that size:
  \<open>L\<close> and \<open>M\<close> resubmitted with priority 10 (the store has both with priority 1), and
  \<open>H\<close> of priority 9.\<close>

definition storeWithLM :: database where
  "storeWithLM = storeOf [itemL, box ''M'' 10 10 10 1] []"

definition batchLMH :: "item list" where
  "batchLMH = [box ''L'' 10 10 10 10, box ''M'' 10 10 10 10, itemH]"

definition emptyPair :: "container list" where
  "emptyPair = [bin ''C1'' 10 10 10 [], bin ''C2'' 10 10 10 []]"

text \<open>A sequence of container operations: adds and removes, applied in order.\<close>

datatype 'a operation = Add "'a item_scheme" position | Remove string

fun applyOperation :: "container \<Rightarrow> 'a operation \<Rightarrow> container" where
  "applyOperation c (Add it pos) = fst (addItem c it pos)"
| "applyOperation c (Remove i) = fst (removeItem c i)"

text \<open>Every container of the store is free of overlaps.\<close>

definition storeNoOverlap :: "database \<Rightarrow> bool" where
  "storeNoOverlap db = (\<forall>k c. getContainer db k = Some c \<longrightarrow> no_overlap c)"

section \<open>Facts about the container operations\<close>

lemma itemsOverlap_sym: "itemsOverlap p q = itemsOverlap q p"
  by (auto simp: itemsOverlap_def)

lemma position_placed [simp]: "position (placed it pos) = pos"
  by (simp add: placed_def item.defs placedItem.defs)

lemma itemId_placed [simp]: "itemId (placed it pos) = itemId it"
  by (simp add: placed_def item.defs placedItem.defs)

lemma no_overlap_iff:
  "no_overlap c \<longleftrightarrow>
     (\<forall>i < length (container.items c). \<forall>j < length (container.items c). i \<noteq> j \<longrightarrow>
        \<not> itemsOverlap (position (container.items c ! i)) (position (container.items c ! j)))"
  by (auto simp: no_overlap_def list_all_iff)

lemma no_overlap_sorted_wrt:
  "no_overlap c \<longleftrightarrow>
     sorted_wrt (\<lambda>p q. \<not> itemsOverlap (position p) (position q)) (container.items c)"
proof
  assume "no_overlap c"
  then show "sorted_wrt (\<lambda>p q. \<not> itemsOverlap (position p) (position q)) (container.items c)"
    by (simp add: no_overlap_iff sorted_wrt_iff_nth_less)
next
  assume s: "sorted_wrt (\<lambda>p q. \<not> itemsOverlap (position p) (position q)) (container.items c)"
  have "\<not> itemsOverlap (position (container.items c ! i)) (position (container.items c ! j))"
    if ij: "i < length (container.items c)" "j < length (container.items c)" "i \<noteq> j" for i j
  proof (cases "i < j")
    case True
    with s ij show ?thesis by (simp add: sorted_wrt_iff_nth_less)
  next
    case False
    with ij have "j < i" by simp
    with s ij have "\<not> itemsOverlap (position (container.items c ! j)) (position (container.items c ! i))"
      by (simp add: sorted_wrt_iff_nth_less)
    then show ?thesis by (simp add: itemsOverlap_sym)
  qed
  then show "no_overlap c" by (simp add: no_overlap_iff)
qed

lemma set_spliceFirst: "set (spliceFirst i xs) \<subseteq> set xs"
  by (induction xs) auto

lemma sorted_wrt_spliceFirst: "sorted_wrt P xs \<Longrightarrow> sorted_wrt P (spliceFirst i xs)"
  using set_spliceFirst by (induction xs) fastforce+

lemma no_overlap_removeItem: "no_overlap c \<Longrightarrow> no_overlap (fst (removeItem c i))"
  by (auto simp: removeItem_def no_overlap_sorted_wrt sorted_wrt_spliceFirst split: option.splits)

lemma canFitItem_iff:
  "canFitItem c it pos \<longleftrightarrow>
     0 \<le> coordinates.width (startCoordinates pos) \<and>
     0 \<le> coordinates.depth (startCoordinates pos) \<and>
     0 \<le> coordinates.height (startCoordinates pos) \<and>
     coordinates.width (endCoordinates pos) \<le> container.width c \<and>
     coordinates.depth (endCoordinates pos) \<le> container.depth c \<and>
     coordinates.height (endCoordinates pos) \<le> container.height c \<and>
     (\<forall>x \<in> set (container.items c). \<not> itemsOverlap (position x) pos)"
  by (auto simp: canFitItem_def list_all_iff)

lemma no_overlap_addItem: "no_overlap c \<Longrightarrow> no_overlap (fst (addItem c it pos))"
  by (auto simp: addItem_def no_overlap_sorted_wrt sorted_wrt_append canFitItem_iff)

lemma getItemsToMove_eq: "getItemsToMove c i = itemsBlocking_spec c i"
  unfolding getItemsToMove_def itemsBlocking_spec_def findItem_def
  by (auto simp: blocks_def projectionsOverlap_def split: option.splits intro!: filter_cong)


section \<open>The scan of findPositionInContainer\<close>

lemma canFitItem_positionAt_bounds:
  "canFitItem c it (positionAt it x y z) \<Longrightarrow>
     0 \<le> x \<and> 0 \<le> y \<and> 0 \<le> z \<and>
     x + item.width it \<le> container.width c \<and>
     y + item.depth it \<le> container.depth c \<and>
     z + item.height it \<le> container.height c"
  by (simp add: canFitItem_iff positionAt_def)

declare scanWidth.simps [simp del] scanDepth.simps [simp del] scanHeight.simps [simp del]

lemma scanWidth_None:
  "scanWidth it c z y x0 = None \<longleftrightarrow>
     (\<forall>x\<ge>x0. x + item.width it \<le> container.width c \<longrightarrow>
        \<not> canFitItem c it (positionAt it x y z))"
proof (induction it c z y x0 rule: scanWidth.induct)
  case (1 it c z y x)
  show ?case
  proof (cases "x + item.width it \<le> container.width c")
    case False
    then show ?thesis by (subst scanWidth.simps) auto
  next
    case inb: True
    show ?thesis
    proof (cases "canFitItem c it (positionAt it x y z)")
      case True
      then show ?thesis using inb by (subst scanWidth.simps) auto
    next
      case False
      have "(\<forall>x'\<ge>x. x' + item.width it \<le> container.width c \<longrightarrow>
               \<not> canFitItem c it (positionAt it x' y z)) \<longleftrightarrow>
            (\<forall>x'\<ge>x + 1. x' + item.width it \<le> container.width c \<longrightarrow>
               \<not> canFitItem c it (positionAt it x' y z))"
        using False by (metis add1_zle_eq order_le_less)
      then show ?thesis using "1.IH" [OF inb False] inb False
        by (subst scanWidth.simps) simp
    qed
  qed
qed

lemma scanWidth_Some:
  "scanWidth it c z y x0 = Some p \<Longrightarrow>
     \<exists>x\<ge>x0. p = positionAt it x y z \<and> canFitItem c it p \<and>
       (\<forall>x'. x0 \<le> x' \<and> x' < x \<longrightarrow> \<not> canFitItem c it (positionAt it x' y z))"
proof (induction it c z y x0 rule: scanWidth.induct)
  case (1 it c z y x)
  from "1.prems" have inb: "x + item.width it \<le> container.width c"
    by (subst (asm) scanWidth.simps) (simp split: if_splits)
  show ?case
  proof (cases "canFitItem c it (positionAt it x y z)")
    case True
    with "1.prems" inb have "p = positionAt it x y z"
      by (subst (asm) scanWidth.simps) simp
    with True show ?thesis by auto
  next
    case False
    with "1.prems" inb have "scanWidth it c z y (x + 1) = Some p"
      by (subst (asm) scanWidth.simps) simp
    from "1.IH" [OF inb False this] obtain x1 where
      x1: "x + 1 \<le> x1" "p = positionAt it x1 y z" "canFitItem c it p"
          "\<forall>x'. x + 1 \<le> x' \<and> x' < x1 \<longrightarrow> \<not> canFitItem c it (positionAt it x' y z)"
      by blast
    have "\<forall>x'. x \<le> x' \<and> x' < x1 \<longrightarrow> \<not> canFitItem c it (positionAt it x' y z)"
      using x1(4) False by (metis add1_zle_eq order_le_less)
    with x1 show ?thesis by (intro exI [of _ x1]) auto
  qed
qed

lemma scanDepth_None:
  "scanDepth it c z y0 = None \<longleftrightarrow>
     (\<forall>y\<ge>y0. y + item.depth it \<le> container.depth c \<longrightarrow> scanWidth it c z y 0 = None)"
proof (induction it c z y0 rule: scanDepth.induct)
  case (1 it c z y)
  show ?case
  proof (cases "y + item.depth it \<le> container.depth c")
    case False
    then show ?thesis by (subst scanDepth.simps) auto
  next
    case inb: True
    show ?thesis
    proof (cases "scanWidth it c z y 0")
      case (Some p)
      then show ?thesis using inb by (subst scanDepth.simps) auto
    next
      case None
      have "(\<forall>y'\<ge>y. y' + item.depth it \<le> container.depth c \<longrightarrow> scanWidth it c z y' 0 = None) \<longleftrightarrow>
            (\<forall>y'\<ge>y + 1. y' + item.depth it \<le> container.depth c \<longrightarrow> scanWidth it c z y' 0 = None)"
        using None by (metis add1_zle_eq order_le_less)
      then show ?thesis using "1.IH" [OF inb None] inb None
        by (subst scanDepth.simps) simp
    qed
  qed
qed

lemma scanDepth_Some:
  "scanDepth it c z y0 = Some p \<Longrightarrow>
     \<exists>y\<ge>y0. y + item.depth it \<le> container.depth c \<and> scanWidth it c z y 0 = Some p \<and>
       (\<forall>y'. y0 \<le> y' \<and> y' < y \<longrightarrow> scanWidth it c z y' 0 = None)"
proof (induction it c z y0 rule: scanDepth.induct)
  case (1 it c z y)
  from "1.prems" have inb: "y + item.depth it \<le> container.depth c"
    by (subst (asm) scanDepth.simps) (simp split: if_splits)
  show ?case
  proof (cases "scanWidth it c z y 0")
    case (Some q)
    with "1.prems" inb have "q = p"
      by (subst (asm) scanDepth.simps) simp
    with Some inb show ?thesis by (intro exI [of _ y]) auto
  next
    case None
    with "1.prems" inb have "scanDepth it c z (y + 1) = Some p"
      by (subst (asm) scanDepth.simps) simp
    from "1.IH" [OF inb None this] obtain y1 where
      y1: "y + 1 \<le> y1" "y1 + item.depth it \<le> container.depth c"
          "scanWidth it c z y1 0 = Some p"
          "\<forall>y'. y + 1 \<le> y' \<and> y' < y1 \<longrightarrow> scanWidth it c z y' 0 = None"
      by blast
    have "\<forall>y'. y \<le> y' \<and> y' < y1 \<longrightarrow> scanWidth it c z y' 0 = None"
      using y1(4) None by (metis add1_zle_eq order_le_less)
    with y1 show ?thesis by (intro exI [of _ y1]) auto
  qed
qed

lemma scanHeight_None:
  "scanHeight it c z0 = None \<longleftrightarrow>
     (\<forall>z\<ge>z0. z + item.height it \<le> container.height c \<longrightarrow> scanDepth it c z 0 = None)"
proof (induction it c z0 rule: scanHeight.induct)
  case (1 it c z)
  show ?case
  proof (cases "z + item.height it \<le> container.height c")
    case False
    then show ?thesis by (subst scanHeight.simps) auto
  next
    case inb: True
    show ?thesis
    proof (cases "scanDepth it c z 0")
      case (Some p)
      then show ?thesis using inb by (subst scanHeight.simps) auto
    next
      case None
      have "(\<forall>z'\<ge>z. z' + item.height it \<le> container.height c \<longrightarrow> scanDepth it c z' 0 = None) \<longleftrightarrow>
            (\<forall>z'\<ge>z + 1. z' + item.height it \<le> container.height c \<longrightarrow> scanDepth it c z' 0 = None)"
        using None by (metis add1_zle_eq order_le_less)
      then show ?thesis using "1.IH" [OF inb None] inb None
        by (subst scanHeight.simps) simp
    qed
  qed
qed

lemma scanHeight_Some:
  "scanHeight it c z0 = Some p \<Longrightarrow>
     \<exists>z\<ge>z0. z + item.height it \<le> container.height c \<and> scanDepth it c z 0 = Some p \<and>
       (\<forall>z'. z0 \<le> z' \<and> z' < z \<longrightarrow> scanDepth it c z' 0 = None)"
proof (induction it c z0 rule: scanHeight.induct)
  case (1 it c z)
  from "1.prems" have inb: "z + item.height it \<le> container.height c"
    by (subst (asm) scanHeight.simps) (simp split: if_splits)
  show ?case
  proof (cases "scanDepth it c z 0")
    case (Some q)
    with "1.prems" inb have "q = p"
      by (subst (asm) scanHeight.simps) simp
    with Some inb show ?thesis by (intro exI [of _ z]) auto
  next
    case None
    with "1.prems" inb have "scanHeight it c (z + 1) = Some p"
      by (subst (asm) scanHeight.simps) simp
    from "1.IH" [OF inb None this] obtain z1 where
      z1: "z + 1 \<le> z1" "z1 + item.height it \<le> container.height c"
          "scanDepth it c z1 0 = Some p"
          "\<forall>z'. z + 1 \<le> z' \<and> z' < z1 \<longrightarrow> scanDepth it c z' 0 = None"
      by blast
    have "\<forall>z'. z \<le> z' \<and> z' < z1 \<longrightarrow> scanDepth it c z' 0 = None"
      using z1(4) None by (metis add1_zle_eq order_le_less)
    with z1 show ?thesis by (intro exI [of _ z1]) auto
  qed
qed


lemma findPosition_None_iff:
  "findPositionInContainer it c = None \<longleftrightarrow>
     (\<forall>x y z. \<not> canFitItem c it (positionAt it x y z))"
proof
  assume none: "findPositionInContainer it c = None"
  show "\<forall>x y z. \<not> canFitItem c it (positionAt it x y z)"
  proof (intro allI notI)
    fix x y z
    assume fit: "canFitItem c it (positionAt it x y z)"
    note b = canFitItem_positionAt_bounds [OF fit]
    from b have dims: "\<not> (item.width it > container.width c \<or>
        item.depth it > container.depth c \<or> item.height it > container.height c)"
      by linarith
    with none have "scanHeight it c 0 = None"
      by (simp add: findPositionInContainer_def)
    with b have "scanDepth it c z 0 = None" by (simp add: scanHeight_None)
    with b have "scanWidth it c z y 0 = None" by (simp add: scanDepth_None)
    with b have "\<not> canFitItem c it (positionAt it x y z)" by (simp add: scanWidth_None)
    with fit show False by contradiction
  qed
next
  assume nofit: "\<forall>x y z. \<not> canFitItem c it (positionAt it x y z)"
  then have "\<And>z y. scanWidth it c z y 0 = None" by (simp add: scanWidth_None)
  then have "\<And>z. scanDepth it c z 0 = None" by (simp add: scanDepth_None)
  then have "scanHeight it c 0 = None" by (simp add: scanHeight_None)
  then show "findPositionInContainer it c = None"
    by (simp add: findPositionInContainer_def)
qed

lemma findPosition_Some_first:
  assumes "findPositionInContainer it c = Some p"
  shows "\<exists>x y z. p = positionAt it x y z \<and> canFitItem c it p \<and>
           (\<forall>x' y' z'. precedes (x', y', z') (x, y, z) \<longrightarrow>
              \<not> canFitItem c it (positionAt it x' y' z'))"
proof -
  from assms have sh: "scanHeight it c 0 = Some p"
    by (simp add: findPositionInContainer_def split: if_splits)
  from scanHeight_Some [OF sh] obtain z where
    z: "0 \<le> z" "scanDepth it c z 0 = Some p"
       "\<forall>z'. 0 \<le> z' \<and> z' < z \<longrightarrow> scanDepth it c z' 0 = None"
    by blast
  from scanDepth_Some [OF z(2)] obtain y where
    y: "0 \<le> y" "scanWidth it c z y 0 = Some p"
       "\<forall>y'. 0 \<le> y' \<and> y' < y \<longrightarrow> scanWidth it c z y' 0 = None"
    by blast
  from scanWidth_Some [OF y(2)] obtain x where
    x: "0 \<le> x" "p = positionAt it x y z" "canFitItem c it p"
       "\<forall>x'. 0 \<le> x' \<and> x' < x \<longrightarrow> \<not> canFitItem c it (positionAt it x' y z)"
    by blast
  have "\<not> canFitItem c it (positionAt it x' y' z')"
    if pre: "precedes (x', y', z') (x, y, z)" for x' y' z'
  proof
    assume fit: "canFitItem c it (positionAt it x' y' z')"
    note b = canFitItem_positionAt_bounds [OF fit]
    from pre consider "z' < z" | "z' = z" "y' < y" | "z' = z" "y' = y" "x' < x"
      by (auto simp: precedes_def)
    then show False
    proof cases
      case 1
      with z(3) b have "scanDepth it c z' 0 = None" by simp
      with b have "scanWidth it c z' y' 0 = None" by (simp add: scanDepth_None)
      with b fit show False by (simp add: scanWidth_None)
    next
      case 2
      with y(3) b have "scanWidth it c z' y' 0 = None" by simp
      with b fit show False by (simp add: scanWidth_None)
    next
      case 3
      with x(4) b fit show False by simp
    qed
  qed
  with x show ?thesis by blast
qed

text \<open>
  Claim C6. \<^const>\<open>findPositionInContainer\<close> returns no position exactly when no origin
  passes \<^const>\<open>canFitItem\<close> (in particular when a dimension of the item exceeds the
  container's), and a returned position is the candidate at the first origin that passes,
  in the scan order height outermost, depth middle, width innermost.
\<close>

theorem findPositionInContainer_first_fit:
  "(findPositionInContainer it c = None \<longleftrightarrow>
      (\<forall>x y z. \<not> canFitItem c it (positionAt it x y z))) \<and>
   (item.width it > container.width c \<or> item.depth it > container.depth c \<or>
      item.height it > container.height c \<longrightarrow> findPositionInContainer it c = None) \<and>
   (\<forall>p. findPositionInContainer it c = Some p \<longrightarrow>
      (\<exists>x y z. p = positionAt it x y z \<and> canFitItem c it p \<and>
         (\<forall>x' y' z'. precedes (x', y', z') (x, y, z) \<longrightarrow>
            \<not> canFitItem c it (positionAt it x' y' z'))))"
  using findPosition_None_iff [of it c] findPosition_Some_first [of it c]
  by (simp add: findPositionInContainer_def)

theorem findPositionInContainer_first_fit_witness:
  "findPositionInContainer itemB containerWithA = Some (positionAt itemB 4 0 0) \<and>
   canFitItem containerWithA itemB (positionAt itemB 4 0 0) \<and>
   \<not> canFitItem containerWithA itemB (positionAt itemB 3 0 0) \<and>
   \<not> canFitItem containerWithA itemB (positionAt itemB 0 0 0)"
proof -
  have ev: "findPositionInContainer itemB containerWithA = Some (positionAt itemB 4 0 0)"
    by code_simp
  from findPositionInContainer_first_fit [of itemB containerWithA] ev
  obtain x y z where
    xyz: "positionAt itemB 4 0 0 = positionAt itemB x y z"
         "canFitItem containerWithA itemB (positionAt itemB 4 0 0)"
         "\<forall>x' y' z'. precedes (x', y', z') (x, y, z) \<longrightarrow>
            \<not> canFitItem containerWithA itemB (positionAt itemB x' y' z')"
    by auto
  from xyz(1) have "x = 4 \<and> y = 0 \<and> z = 0"
    by (simp add: positionAt_def)
  with xyz(3) have "\<not> canFitItem containerWithA itemB (positionAt itemB 3 0 0)"
    and "\<not> canFitItem containerWithA itemB (positionAt itemB 0 0 0)"
    by (simp_all add: precedes_def)
  with ev xyz(2) show ?thesis by simp
qed

section \<open>Blocking records and unique ids\<close>

lemma find_itemId_distinct:
  assumes "distinct (map itemId xs)" "t \<in> set xs"
  shows "find (\<lambda>it. itemId it = itemId t) xs = Some t"
  using assms
proof (induction xs)
  case Nil
  then show ?case by simp
next
  case (Cons x xs)
  then show ?case by (cases "x = t") (auto simp: image_iff)
qed

lemma find_None_itemId: "i \<notin> set (map itemId xs) \<Longrightarrow> find (\<lambda>it. itemId it = i) xs = None"
  by (induction xs) auto

text \<open>
  Claim C8. \<^const>\<open>getItemsToMove\<close> returns, in insertion order, the records with another
  id that start at a strictly lower depth than the target and whose width and height
  projections both overlap the target's; the target is the first record with the id
  asked for, and an id that is not in the container gives the empty list. Where the ids
  of the container are distinct, these are exactly the other records that block the
  target.
\<close>

theorem getItemsToMove_blocking:
  "getItemsToMove c i = itemsBlocking_spec c i \<and>
   (i \<notin> set (itemIds c) \<longrightarrow> getItemsToMove c i = []) \<and>
   (\<forall>t. distinct (itemIds c) \<and> t \<in> set (container.items c) \<longrightarrow>
      getItemsToMove c (itemId t) =
        filter (\<lambda>it. it \<noteq> t \<and> blocks it t) (container.items c))"
proof (intro conjI allI impI)
  show "getItemsToMove c i = itemsBlocking_spec c i"
    by (rule getItemsToMove_eq)
next
  assume "i \<notin> set (itemIds c)"
  then show "getItemsToMove c i = []"
    by (simp add: getItemsToMove_eq itemsBlocking_spec_def itemIds_def find_None_itemId)
next
  fix t
  assume h: "distinct (itemIds c) \<and> t \<in> set (container.items c)"
  then have f: "find (\<lambda>it. itemId it = itemId t) (container.items c) = Some t"
    by (simp add: itemIds_def find_itemId_distinct)
  have "itemId it \<noteq> itemId t \<longleftrightarrow> it \<noteq> t" if "it \<in> set (container.items c)" for it
    using h that by (auto simp: itemIds_def distinct_map dest: inj_onD)
  then have "filter (\<lambda>it. itemId it \<noteq> itemId t \<and> blocks it t) (container.items c) =
             filter (\<lambda>it. it \<noteq> t \<and> blocks it t) (container.items c)"
    by (intro filter_cong) auto
  with f show "getItemsToMove c (itemId t) =
        filter (\<lambda>it. it \<noteq> t \<and> blocks it t) (container.items c)"
    by (simp add: getItemsToMove_eq itemsBlocking_spec_def)
qed

theorem getItemsToMove_blocking_witness:
  "distinct (itemIds shelf) \<and> recX \<in> set (container.items shelf) \<and>
   getItemsToMove shelf ''X'' = [recY, recZ] \<and>
   ''Q'' \<notin> set (itemIds shelf) \<and> getItemsToMove shelf ''Q'' = []"
proof -
  have d: "distinct (itemIds shelf)" by code_simp
  have m: "recX \<in> set (container.items shelf)" by (simp add: shelf_def bin_def)
  have q: "''Q'' \<notin> set (itemIds shelf)" by code_simp
  have i: "itemId recX = ''X''" by code_simp
  have f: "filter (\<lambda>it. it \<noteq> recX \<and> blocks it recX) (container.items shelf) = [recY, recZ]"
    by code_simp
  from getItemsToMove_blocking [of shelf "''X''"] d m i f
  have "getItemsToMove shelf ''X'' = [recY, recZ]" by auto
  moreover from getItemsToMove_blocking [of shelf "''Q''"] q
  have "getItemsToMove shelf ''Q'' = []" by blast
  ultimately show ?thesis using d m q by simp
qed

text \<open>
  Claim C9 as stated fails: \<^const>\<open>addItem\<close> tests the position only, so an id already in
  the container is added a second time at any free position.
\<close>

theorem addItem_duplicate_id_counterexample:
  "distinct (itemIds containerWithA) \<and>
   itemId itemA \<in> set (itemIds containerWithA) \<and>
   snd (addItem containerWithA itemA (positionAt itemA 4 0 0)) \<and>
   itemIds (fst (addItem containerWithA itemA (positionAt itemA 4 0 0))) = [''A'', ''A''] \<and>
   \<not> distinct (itemIds (fst (addItem containerWithA itemA (positionAt itemA 4 0 0))))"
  by code_simp

text \<open>
  Claim C9, amended. \<^const>\<open>addItem\<close> appends one record exactly when \<^const>\<open>canFitItem\<close>
  holds, that is when the position is inside the container and overlaps no record, and
  reports it; the records already there are kept as they are. The ids of the container
  stay distinct when the id added is not among them.
\<close>

theorem addItem_inserts_iff_canFit:
  "(snd (addItem c it pos) \<longleftrightarrow> canFitItem c it pos) \<and>
   container.items (fst (addItem c it pos)) =
     (if canFitItem c it pos then container.items c @ [placed it pos] else container.items c) \<and>
   (canFitItem c it pos \<longleftrightarrow>
      0 \<le> coordinates.width (startCoordinates pos) \<and>
      0 \<le> coordinates.depth (startCoordinates pos) \<and>
      0 \<le> coordinates.height (startCoordinates pos) \<and>
      coordinates.width (endCoordinates pos) \<le> container.width c \<and>
      coordinates.depth (endCoordinates pos) \<le> container.depth c \<and>
      coordinates.height (endCoordinates pos) \<le> container.height c \<and>
      list_all (\<lambda>x. \<not> itemsOverlap (position x) pos) (container.items c)) \<and>
   (distinct (itemIds c) \<and> itemId it \<notin> set (itemIds c) \<longrightarrow>
      distinct (itemIds (fst (addItem c it pos))))"
  by (auto simp: addItem_def itemIds_def canFitItem_iff list_all_iff)

theorem addItem_inserts_iff_canFit_witness:
  "distinct (itemIds containerWithA) \<and> itemId itemB \<notin> set (itemIds containerWithA) \<and>
   canFitItem containerWithA itemB (positionAt itemB 4 0 0) \<and>
   snd (addItem containerWithA itemB (positionAt itemB 4 0 0)) \<and>
   distinct (itemIds (fst (addItem containerWithA itemB (positionAt itemB 4 0 0)))) \<and>
   \<not> canFitItem containerWithA itemB (positionAt itemB 0 0 0) \<and>
   \<not> snd (addItem containerWithA itemB (positionAt itemB 0 0 0))"
proof -
  have d: "distinct (itemIds containerWithA)" by code_simp
  have n: "itemId itemB \<notin> set (itemIds containerWithA)" by code_simp
  have f: "canFitItem containerWithA itemB (positionAt itemB 4 0 0)" by code_simp
  have g: "\<not> canFitItem containerWithA itemB (positionAt itemB 0 0 0)" by code_simp
  from addItem_inserts_iff_canFit [of containerWithA itemB "positionAt itemB 4 0 0"] d n f
  have "snd (addItem containerWithA itemB (positionAt itemB 4 0 0))"
    and "distinct (itemIds (fst (addItem containerWithA itemB (positionAt itemB 4 0 0))))"
    by blast+
  moreover from addItem_inserts_iff_canFit [of containerWithA itemB "positionAt itemB 0 0 0"] g
  have "\<not> snd (addItem containerWithA itemB (positionAt itemB 0 0 0))"
    by blast
  ultimately show ?thesis using d n f g by simp
qed

section \<open>The retrieval steps\<close>

lemma removeLoop_actions:
  "map actionAndId (removeLoop n xs) =
     concat (map (\<lambda>b. [(''remove'', itemId b), (''setAside'', itemId b)]) xs)"
  by (induction xs arbitrary: n) (simp_all add: actionAndId_def)

lemma removeLoop_numbers:
  "map retrievalStep.step (removeLoop n xs) = [n..<n + 2 * length xs]"
proof (induction xs arbitrary: n)
  case Nil
  then show ?case by simp
next
  case (Cons x xs)
  have "[n..<n + 2 * length (x # xs)] = n # [Suc n..<n + 2 * length (x # xs)]"
    by (rule upt_conv_Cons) simp
  also have "[Suc n..<n + 2 * length (x # xs)] = Suc n # [Suc (Suc n)..<n + 2 * length (x # xs)]"
    by (rule upt_conv_Cons) simp
  finally have "[n..<n + 2 * length (x # xs)] = n # Suc n # [n + 2..<n + 2 + 2 * length xs]"
    by simp
  then show ?case using Cons.IH [of "n + 2"] by simp
qed

lemma removeLoop_count:
  "countAction ''remove'' (removeLoop n xs) = length xs \<and>
   countAction ''placeBack'' (removeLoop n xs) = 0"
  by (induction xs arbitrary: n) (simp_all add: countAction_def)

lemma placeBackLoop_actions:
  "k \<le> length xs \<Longrightarrow>
     map actionAndId (placeBackLoop xs k n) =
       map (\<lambda>b. (''placeBack'', itemId b)) (rev (take k xs))"
proof (induction k arbitrary: n)
  case 0
  then show ?case by simp
next
  case (Suc k)
  then have "take (Suc k) xs = take k xs @ [xs ! k]"
    by (simp add: take_Suc_conv_app_nth)
  with Suc show ?case by (simp add: actionAndId_def)
qed

lemma placeBackLoop_numbers:
  "map retrievalStep.step (placeBackLoop xs k n) = [n..<n + k]"
proof (induction k arbitrary: n)
  case 0
  then show ?case by simp
next
  case (Suc k)
  have "[n..<n + Suc k] = n # [n + 1..<n + 1 + k]"
    by (simp add: upt_conv_Cons)
  then show ?case using Suc.IH [of "n + 1"] by simp
qed

lemma placeBackLoop_count:
  "countAction ''placeBack'' (placeBackLoop xs k n) = k \<and>
   countAction ''remove'' (placeBackLoop xs k n) = 0"
  by (induction k arbitrary: n) (simp_all add: countAction_def)

lemma countAction_append:
  "countAction a (xs @ ys) = countAction a xs + countAction a ys"
  by (simp add: countAction_def)

lemma countAction_Cons:
  "countAction a (x # xs) = (if retrievalStep.action x = a then 1 else 0) + countAction a xs"
  by (simp add: countAction_def)

lemma length_removeLoop: "length (removeLoop n xs) = 2 * length xs"
  by (induction xs arbitrary: n) simp_all

lemma length_placeBackLoop: "length (placeBackLoop xs k n) = k"
  by (induction k arbitrary: n) simp_all

text \<open>
  Claim C5. Where the store knows the target, \<^const>\<open>calculateRetrievalSteps\<close> returns
  the step list of the specification: a \<^verbatim>\<open>remove\<close> and a \<^verbatim>\<open>setAside\<close> for each blocking
  record in the order of \<^const>\<open>getItemsToMove\<close>, the \<^verbatim>\<open>retrieve\<close> of the target, and a
  \<^verbatim>\<open>placeBack\<close> for each blocking record in reverse order; the single step \<^verbatim>\<open>retrieve\<close>
  when nothing blocks. The steps are numbered from 1, and there are as many
  \<^verbatim>\<open>placeBack\<close> steps as \<^verbatim>\<open>remove\<close> steps. The function reads the container and returns
  the list only. Where the store does not know the target, the lookup of its name throws.
\<close>

theorem calculateRetrievalSteps_stack_discipline:
  "(getItem db i = None \<longrightarrow> calculateRetrievalSteps db i c = Inl TypeError) \<and>
   (\<forall>target. getItem db i = Some target \<longrightarrow>
      (\<exists>steps. calculateRetrievalSteps db i c = Inr steps \<and>
         map actionAndId steps = stepsToRetrieve_spec i (getItemsToMove c i) \<and>
         (getItemsToMove c i = [] \<longrightarrow> map actionAndId steps = [(''retrieve'', i)]) \<and>
         map retrievalStep.step steps = [1..<Suc (length steps)] \<and>
         countAction ''remove'' steps = length (getItemsToMove c i) \<and>
         countAction ''placeBack'' steps = countAction ''remove'' steps))"
proof (intro conjI allI impI)
  assume "getItem db i = None"
  then show "calculateRetrievalSteps db i c = Inl TypeError"
    by (simp add: calculateRetrievalSteps_def Let_def)
next
  fix target
  assume t: "getItem db i = Some target"
  define xs where "xs = getItemsToMove c i"
  define r where "r = \<lparr> retrievalStep.step = 1 + 2 * length xs,
    retrievalStep.action = ''retrieve'', retrievalStep.itemId = i, itemName = name target \<rparr>"
  define steps where
    "steps = removeLoop 1 xs @ [r] @ placeBackLoop xs (length xs) (2 + 2 * length xs)"
  have res: "calculateRetrievalSteps db i c = Inr steps"
    using t by (cases xs) (simp_all add: calculateRetrievalSteps_def Let_def steps_def
        r_def xs_def [symmetric])
  have acts: "map actionAndId steps = stepsToRetrieve_spec i xs"
    by (simp add: steps_def stepsToRetrieve_spec_def removeLoop_actions
        placeBackLoop_actions r_def actionAndId_def)
  have len: "length steps = 2 * length xs + 1 + length xs"
    by (simp add: steps_def length_removeLoop length_placeBackLoop)
  have "[1..<Suc (length steps)] =
          [1..<1 + 2 * length xs] @ [1 + 2 * length xs] @
          [2 + 2 * length xs..<2 + 2 * length xs + length xs]"
  proof -
    have "Suc (length steps) = 1 + 2 * length xs + (1 + length xs)"
      using len by simp
    then have "[1..<Suc (length steps)] =
        [1..<1 + 2 * length xs] @ [1 + 2 * length xs..<1 + 2 * length xs + (1 + length xs)]"
      by (simp only: upt_add_eq_append [of 1 "1 + 2 * length xs" "1 + length xs", OF le_add1])
    moreover have "[1 + 2 * length xs..<1 + 2 * length xs + (1 + length xs)] =
        (1 + 2 * length xs) # [Suc (1 + 2 * length xs)..<1 + 2 * length xs + (1 + length xs)]"
      by (rule upt_conv_Cons) simp
    ultimately show ?thesis by simp
  qed
  then have nums: "map retrievalStep.step steps = [1..<Suc (length steps)]"
    by (simp add: steps_def removeLoop_numbers placeBackLoop_numbers r_def)
  have cr: "countAction ''remove'' steps = length xs"
    by (simp add: steps_def countAction_append countAction_Cons removeLoop_count
        placeBackLoop_count r_def)
  have cp: "countAction ''placeBack'' steps = length xs"
    by (simp add: steps_def countAction_append countAction_Cons removeLoop_count
        placeBackLoop_count r_def)
  have single: "xs = [] \<longrightarrow> map actionAndId steps = [(''retrieve'', i)]"
    using acts by (simp add: stepsToRetrieve_spec_def)
  show "\<exists>steps. calculateRetrievalSteps db i c = Inr steps \<and>
         map actionAndId steps = stepsToRetrieve_spec i (getItemsToMove c i) \<and>
         (getItemsToMove c i = [] \<longrightarrow> map actionAndId steps = [(''retrieve'', i)]) \<and>
         map retrievalStep.step steps = [1..<Suc (length steps)] \<and>
         countAction ''remove'' steps = length (getItemsToMove c i) \<and>
         countAction ''placeBack'' steps = countAction ''remove'' steps"
    using res acts nums cr cp single unfolding xs_def by (intro exI [of _ steps]) simp
qed


theorem calculateRetrievalSteps_stack_discipline_witness:
  "getItem shelfStore ''X'' = Some (stored (box ''X'' 4 4 4 1)) \<and>
   (\<exists>steps. calculateRetrievalSteps shelfStore ''X'' shelf = Inr steps \<and>
      map actionAndId steps =
        [(''remove'', ''Y''), (''setAside'', ''Y''), (''remove'', ''Z''), (''setAside'', ''Z''),
         (''retrieve'', ''X''), (''placeBack'', ''Z''), (''placeBack'', ''Y'')] \<and>
      countAction ''remove'' steps = 2 \<and> countAction ''placeBack'' steps = 2)"
proof -
  have g: "getItem shelfStore ''X'' = Some (stored (box ''X'' 4 4 4 1))"
    by code_simp
  have m: "getItemsToMove shelf ''X'' = [recY, recZ]"
    by code_simp
  have s: "stepsToRetrieve_spec ''X'' [recY, recZ] =
        [(''remove'', ''Y''), (''setAside'', ''Y''), (''remove'', ''Z''), (''setAside'', ''Z''),
         (''retrieve'', ''X''), (''placeBack'', ''Z''), (''placeBack'', ''Y'')]"
    by code_simp
  from calculateRetrievalSteps_stack_discipline [of shelfStore "''X''" shelf] g
  obtain steps where
    "calculateRetrievalSteps shelfStore ''X'' shelf = Inr steps"
    "map actionAndId steps = stepsToRetrieve_spec ''X'' (getItemsToMove shelf ''X'')"
    "countAction ''remove'' steps = length (getItemsToMove shelf ''X'')"
    "countAction ''placeBack'' steps = countAction ''remove'' steps"
    by blast
  with m s g show ?thesis by simp
qed

text \<open>
  Claim C10. \<^const>\<open>placeItem\<close> fails exactly when the store has no such item, or no such
  container, or the position does not pass \<^const>\<open>canFitItem\<close> in the target container;
  a failed call returns the store as it was: items, containers and log.
\<close>

theorem placeItem_failure_leaves_state:
  "((getItem db i = None \<or> getContainer db cid = None \<or>
      (\<exists>it c. getItem db i = Some it \<and> getContainer db cid = Some c \<and>
          \<not> canFitItem c it pos)) \<longrightarrow>
      placeItem db i u ts cid pos = (db, False)) \<and>
   (\<not> snd (placeItem db i u ts cid pos) \<longleftrightarrow>
      (getItem db i = None \<or> getContainer db cid = None \<or>
       (\<exists>it c. getItem db i = Some it \<and> getContainer db cid = Some c \<and>
          \<not> canFitItem c it pos)))"
  by (auto simp: placeItem_def Let_def split: option.splits)

theorem placeItem_failure_leaves_state_witness:
  "getItem smallStore ''Q'' = None \<and>
   placeItem smallStore ''Q'' ''u'' None ''C1'' (positionAt itemB 4 0 0) = (smallStore, False) \<and>
   getContainer smallStore ''C9'' = None \<and>
   placeItem smallStore ''B'' ''u'' None ''C9'' (positionAt itemB 4 0 0) = (smallStore, False) \<and>
   getItem smallStore ''B'' = Some (stored itemB) \<and>
   getContainer smallStore ''C1'' = Some containerWithA \<and>
   \<not> canFitItem containerWithA (stored itemB) (positionAt itemB 0 0 0) \<and>
   placeItem smallStore ''B'' ''u'' None ''C1'' (positionAt itemB 0 0 0) = (smallStore, False) \<and>
   snd (placeItem smallStore ''B'' ''u'' None ''C1'' (positionAt itemB 4 0 0))"
proof -
  have q: "getItem smallStore ''Q'' = None" by code_simp
  have c9: "getContainer smallStore ''C9'' = None" by code_simp
  have b: "getItem smallStore ''B'' = Some (stored itemB)" by code_simp
  have c1: "getContainer smallStore ''C1'' = Some containerWithA" by code_simp
  have nf: "\<not> canFitItem containerWithA (stored itemB) (positionAt itemB 0 0 0)" by code_simp
  have f: "canFitItem containerWithA (stored itemB) (positionAt itemB 4 0 0)" by code_simp
  note t = placeItem_failure_leaves_state [of smallStore _ _ _ "''u''" None]
  from t [of "''Q''" "''C1''" "positionAt itemB 4 0 0"] q
  have 1: "placeItem smallStore ''Q'' ''u'' None ''C1'' (positionAt itemB 4 0 0) = (smallStore, False)"
    by blast
  from t [of "''B''" "''C9''" "positionAt itemB 4 0 0"] c9
  have 2: "placeItem smallStore ''B'' ''u'' None ''C9'' (positionAt itemB 4 0 0) = (smallStore, False)"
    by blast
  from t [of "''B''" "''C1''" "positionAt itemB 0 0 0"] b c1 nf
  have 3: "placeItem smallStore ''B'' ''u'' None ''C1'' (positionAt itemB 0 0 0) = (smallStore, False)"
    by blast
  from t [of "''B''" "''C1''" "positionAt itemB 4 0 0"] b c1 f
  have 4: "snd (placeItem smallStore ''B'' ''u'' None ''C1'' (positionAt itemB 4 0 0))"
    by auto
  from q c9 b c1 nf 1 2 3 4 show ?thesis by simp
qed

section \<open>The passes keep the containers free of overlaps\<close>

lemma no_overlap_update:
  "list_all no_overlap cs \<Longrightarrow> (k < length cs \<Longrightarrow> no_overlap c) \<Longrightarrow>
     list_all no_overlap (cs[k := c])"
proof (cases "k < length cs")
  case True
  assume a: "list_all no_overlap cs" and b: "k < length cs \<Longrightarrow> no_overlap c"
  have "set (cs[k := c]) \<subseteq> insert c (set cs)" by (rule set_update_subset_insert)
  with a b True show ?thesis by (auto simp: list_all_iff)
next
  case False
  assume "list_all no_overlap cs"
  with False show ?thesis by (simp add: list_update_beyond)
qed

lemma no_overlap_nth: "list_all no_overlap cs \<Longrightarrow> k < length cs \<Longrightarrow> no_overlap (cs ! k)"
  by (simp add: list_all_iff)

lemma no_overlap_applyOperation: "no_overlap c \<Longrightarrow> no_overlap (applyOperation c op)"
  by (cases op) (simp_all add: no_overlap_addItem no_overlap_removeItem)

lemma no_overlap_operations: "no_overlap c \<Longrightarrow> no_overlap (foldl applyOperation c ops)"
  by (induction ops arbitrary: c) (simp_all add: no_overlap_applyOperation)

lemma findNewHome_no_overlap:
  "list_all no_overlap (containerMap st) \<Longrightarrow>
     list_all no_overlap (containerMap (fst (findNewHome cid lp ks st)))"
proof (induction ks arbitrary: st)
  case Nil
  then show ?case by simp
next
  case (Cons k ks)
  show ?case
  proof (cases "containerId (containerMap st ! k) = cid")
    case True
    then show ?thesis using Cons by (simp add: Let_def)
  next
    case False
    show ?thesis
    proof (cases "findPositionInContainer lp (containerMap st ! k)")
      case None
      then show ?thesis using Cons False by (simp add: Let_def)
    next
      case (Some pos)
      then show ?thesis using Cons.prems False
        by (simp add: Let_def no_overlap_update no_overlap_nth no_overlap_addItem)
    qed
  qed
qed

lemma tryEvictions_no_overlap:
  "list_all no_overlap (containerMap st) \<Longrightarrow>
     list_all no_overlap (containerMap (tryEvictions it sortedIdx k lps st))"
proof (induction lps arbitrary: st)
  case Nil
  then show ?case by simp
next
  case (Cons lp lps)
  define c where "c = fst (removeItem (containerMap st ! k) (itemId lp))"
  have c: "k < length (containerMap st) \<Longrightarrow> no_overlap c"
    using Cons.prems by (simp add: c_def no_overlap_nth no_overlap_removeItem)
  show ?case
  proof (cases "findPositionInContainer it c")
    case None
    have "list_all no_overlap ((containerMap st)[k := fst (addItem c lp (position lp))])"
      using Cons.prems c by (simp add: no_overlap_update no_overlap_addItem)
    then show ?thesis using None Cons.IH by (simp add: Let_def c_def [symmetric])
  next
    case (Some newPosition)
    define st1 where "st1 = st\<lparr> rearrangements := rearrangements st @
                          [\<lparr> rearrangement.step = step st, rearrangement.action = ''remove'',
                             rearrangement.itemId = itemId lp,
                             fromContainer = Some (containerId c),
                             fromPosition = Some (position lp),
                             toContainer = None, toPosition = None \<rparr>,
                           \<lparr> rearrangement.step = step st + 1, rearrangement.action = ''place'',
                             rearrangement.itemId = itemId it,
                             fromContainer = None, fromPosition = None,
                             toContainer = Some (containerId c),
                             toPosition = Some newPosition \<rparr>],
                        step := step st + 2,
                        placements := placements st @
                          [\<lparr> placement.itemId = itemId it,
                             placement.containerId = containerId c,
                             placement.position = newPosition \<rparr>],
                        containerMap := (containerMap st)[k := fst (addItem c it newPosition)] \<rparr>"
    have st1: "list_all no_overlap (containerMap st1)"
      using Cons.prems c by (simp add: st1_def no_overlap_update no_overlap_addItem)
    obtain st2 newHome where fh: "findNewHome (containerId c) lp sortedIdx st1 = (st2, newHome)"
      by (cases "findNewHome (containerId c) lp sortedIdx st1")
    from findNewHome_no_overlap [OF st1, of "containerId c" lp sortedIdx] fh
    have st2: "list_all no_overlap (containerMap st2)" by simp
    then have "list_all no_overlap ((containerMap st2)
        [k := fst (addItem (containerMap st2 ! k) lp (position lp))])"
      by (simp add: no_overlap_update no_overlap_nth no_overlap_addItem)
    moreover have "tryEvictions it sortedIdx k (lp # lps) st =
        (if newHome then st2
         else st2\<lparr> rearrangements := rearrangements st2 @
                          [\<lparr> rearrangement.step = step st2, rearrangement.action = ''place'',
                             rearrangement.itemId = itemId lp,
                             fromContainer = None, fromPosition = None,
                             toContainer = Some (containerId c),
                             toPosition = Some (position lp) \<rparr>],
                        step := step st2 + 1,
                        containerMap := (containerMap st2)
                          [k := fst (addItem (containerMap st2 ! k) lp (position lp))] \<rparr>)"
      unfolding tryEvictions.simps Let_def c_def [symmetric] Some option.case
        st1_def [symmetric] fh prod.case ..
    ultimately show ?thesis using st2 by simp
  qed
qed

lemma tryContainers_no_overlap:
  "list_all no_overlap (containerMap st) \<Longrightarrow>
     list_all no_overlap (containerMap (tryContainers db it sortedIdx ks st))"
proof (induction ks arbitrary: st)
  case Nil
  then show ?case by simp
next
  case (Cons k ks)
  show ?case
  proof (cases "findPositionInContainer it (containerMap st ! k)")
    case None
    then show ?thesis using Cons by (simp add: Let_def tryEvictions_no_overlap)
  next
    case (Some pos)
    then show ?thesis using Cons.prems
      by (simp add: Let_def no_overlap_update no_overlap_nth no_overlap_addItem)
  qed
qed

lemma resolveItem_no_overlap:
  "list_all no_overlap (containerMap st) \<Longrightarrow>
     list_all no_overlap (containerMap (resolveItem db st it))"
  by (simp add: resolveItem_def Let_def tryContainers_no_overlap)

lemma foldl_resolveItem_no_overlap:
  "list_all no_overlap (containerMap st) \<Longrightarrow>
     list_all no_overlap (containerMap (foldl (resolveItem db) st its))"
  by (induction its arbitrary: st) (simp_all add: resolveItem_no_overlap)

lemma rearrange_no_overlap:
  "list_all no_overlap cs \<Longrightarrow>
     list_all no_overlap (containerMap (rearrangeForUnplacedItems_state db its cs))"
  by (simp add: rearrangeForUnplacedItems_state_def foldl_resolveItem_no_overlap)

lemma placeFirstFit_no_overlap:
  "list_all no_overlap cmap \<Longrightarrow>
     list_all no_overlap (fst (fst (placeFirstFit it ks (cmap, ps))))"
proof (induction ks)
  case Nil
  then show ?case by simp
next
  case (Cons k ks)
  then show ?case
    by (cases "findPositionInContainer it (cmap ! k)")
       (simp_all add: no_overlap_update no_overlap_nth no_overlap_addItem)
qed

lemma placeOne_no_overlap:
  assumes "list_all no_overlap (fst acc)"
  shows "list_all no_overlap (fst (placeOne acc it))"
proof -
  obtain cmap ps un where acc: "acc = (cmap, ps, un)" by (cases acc)
  define pref where "pref = filter (\<lambda>k. zone (cmap ! k) = preferredZone it) [0..<length cmap]"
  obtain cmap1 ps1 b1 where r1: "placeFirstFit it pref (cmap, ps) = ((cmap1, ps1), b1)"
    by (metis surj_pair)
  have c1: "list_all no_overlap cmap1"
    using placeFirstFit_no_overlap [of cmap it pref ps] assms acc r1 by simp
  define rest where "rest = filter (\<lambda>k. zone (cmap1 ! k) \<noteq> preferredZone it) [0..<length cmap1]"
  obtain cmap2 ps2 b2 where r2: "placeFirstFit it rest (cmap1, ps1) = ((cmap2, ps2), b2)"
    by (metis surj_pair)
  have c2: "list_all no_overlap cmap2"
    using placeFirstFit_no_overlap [of cmap1 it rest ps1] c1 r2 by simp
  show ?thesis
    using c1 c2 r1 r2
    by (cases b1; cases b2)
       (simp_all add: placeOne_def acc Let_def pref_def [symmetric] rest_def [symmetric])
qed

lemma foldl_placeOne_no_overlap:
  "list_all no_overlap (fst acc) \<Longrightarrow> list_all no_overlap (fst (foldl placeOne acc its))"
  by (induction its arbitrary: acc) (simp_all add: placeOne_no_overlap)

lemma no_overlap_empty: "container.items c = [] \<Longrightarrow> no_overlap c"
  by (simp add: no_overlap_def)

lemma mapSet_empty_items:
  "list_all (\<lambda>c. container.items c = []) m \<Longrightarrow> container.items c = [] \<Longrightarrow>
     list_all (\<lambda>c. container.items c = []) (mapSet m c)"
  by (auto simp: mapSet_def list_all_iff)

lemma workingCopies_aux:
  "list_all (\<lambda>c. container.items c = []) m \<Longrightarrow>
     list_all (\<lambda>c. container.items c = [])
       (foldl (\<lambda>m c. mapSet m (c\<lparr>container.items := []\<rparr>)) m cs)"
  by (induction cs arbitrary: m) (simp_all add: mapSet_empty_items)

lemma workingCopies_empty: "list_all (\<lambda>c. container.items c = []) (workingCopies cs)"
  by (simp add: workingCopies_def workingCopies_aux)

lemma workingCopies_no_overlap: "list_all no_overlap (workingCopies cs)"
  using workingCopies_empty [of cs] by (auto simp: list_all_iff no_overlap_empty)

lemma firstPass_no_overlap: "list_all no_overlap (fst (firstPass its cs))"
  by (simp add: firstPass_def foldl_placeOne_no_overlap workingCopies_no_overlap)

lemma findOptimalPlacement_no_overlap:
  "list_all no_overlap (findOptimalPlacement_containers db its cs)"
proof -
  obtain cmap ps un where fp: "firstPass its cs = (cmap, ps, un)"
    by (cases "firstPass its cs")
  with firstPass_no_overlap [of its cs] have "list_all no_overlap cmap" by simp
  then show ?thesis
    by (simp add: findOptimalPlacement_containers_def fp rearrange_no_overlap)
qed

lemma storeNoOverlap_updateContainer:
  "storeNoOverlap db \<Longrightarrow> no_overlap c \<Longrightarrow> storeNoOverlap (updateContainer db c)"
  by (auto simp: storeNoOverlap_def updateContainer_def getContainer_def)

lemma storeNoOverlap_updateItem: "storeNoOverlap (updateItem db it) = storeNoOverlap db"
  by (simp add: storeNoOverlap_def updateItem_def getContainer_def)

lemma storeNoOverlap_addLog: "storeNoOverlap (addLog db l) = storeNoOverlap db"
  by (simp add: storeNoOverlap_def addLog_def getContainer_def)

lemma placeItem_no_overlap:
  assumes "storeNoOverlap db"
  shows "storeNoOverlap (fst (placeItem db i u ts cid pos))"
proof (cases "getItem db i")
  case None
  then show ?thesis using assms by (simp add: placeItem_def)
next
  case (Some it)
  show ?thesis
  proof (cases "getContainer db cid")
    case None
    then show ?thesis using assms Some by (simp add: placeItem_def)
  next
    case c: (Some c)
    have nc: "no_overlap c" using assms c by (auto simp: storeNoOverlap_def)
    show ?thesis
    proof (cases "canFitItem c it pos")
      case False
      then show ?thesis using assms Some c by (simp add: placeItem_def)
    next
      case True
      define old where "old = (if truthy (storedItem.containerId it)
                            then (case storedItem.containerId it of
                                    Some oid \<Rightarrow> getContainer db oid | None \<Rightarrow> None)
                            else None)"
      have oldc: "no_overlap oc" if "old = Some oc" for oc
        using that assms by (auto simp: old_def storeNoOverlap_def split: if_splits option.splits)
      define db1 where "db1 = (case old of
                              Some oldContainer \<Rightarrow>
                                updateContainer db (fst (removeItem oldContainer i))
                            | None \<Rightarrow> db)"
      define c1 where "c1 = (case old of
                             Some oldContainer \<Rightarrow>
                               if containerId oldContainer = containerId c
                               then fst (removeItem oldContainer i) else c
                           | None \<Rightarrow> c)"
      have d1: "storeNoOverlap db1"
        using assms oldc
        by (auto simp: db1_def storeNoOverlap_updateContainer no_overlap_removeItem
            split: option.splits)
      have n1: "no_overlap c1"
        using nc oldc by (auto simp: c1_def no_overlap_removeItem split: option.splits)
      show ?thesis
        using True Some c d1 n1
        by (simp add: placeItem_def Let_def old_def [symmetric] db1_def [symmetric]
            c1_def [symmetric] storeNoOverlap_addLog storeNoOverlap_updateContainer
            storeNoOverlap_updateItem no_overlap_addItem)
    qed
  qed
qed


text \<open>
  The records of the containers themselves stay free of overlaps. \<^const>\<open>addItem\<close>
  appends the record exactly when \<^const>\<open>canFitItem\<close> holds and otherwise leaves the
  records as they are; a container without overlapping records has none after an add,
  after a remove and after any sequence of adds and removes; the rearrangement pass keeps
  every container of its map free of overlaps, the first pass and the rearrangement pass
  of a batch placement keep the working copies free of overlaps, and \<^const>\<open>placeItem\<close>
  keeps every container of the store free of overlaps.
\<close>

lemma container_records_stay_disjoint:
  "container.items (fst (addItem c it pos)) =
     (if canFitItem c it pos then container.items c @ [placed it pos] else container.items c) \<and>
   (snd (addItem c it pos) \<longleftrightarrow> canFitItem c it pos) \<and>
   (no_overlap c \<longrightarrow>
      no_overlap (fst (addItem c it pos)) \<and> no_overlap (fst (removeItem c i)) \<and>
      no_overlap (foldl applyOperation c ops)) \<and>
   (list_all no_overlap cmap \<longrightarrow>
      list_all no_overlap (containerMap (rearrangeForUnplacedItems_state db unplacedItems cmap))) \<and>
   list_all no_overlap (findOptimalPlacement_containers db its cs) \<and>
   (storeNoOverlap sdb \<longrightarrow> storeNoOverlap (fst (placeItem sdb j u ts cid pos')))"
proof -
  have "container.items (fst (addItem c it pos)) =
     (if canFitItem c it pos then container.items c @ [placed it pos] else container.items c)"
    and "snd (addItem c it pos) \<longleftrightarrow> canFitItem c it pos"
    by (simp_all add: addItem_def)
  then show ?thesis
    by (simp add: no_overlap_addItem no_overlap_removeItem no_overlap_operations
        rearrange_no_overlap findOptimalPlacement_no_overlap placeItem_no_overlap)
qed

lemma container_records_stay_disjoint_example:
  "no_overlap containerWithA \<and>
   container.items (fst (addItem containerWithA itemB (positionAt itemB 4 0 0))) =
     [placed itemA (positionAt itemA 0 0 0), placed itemB (positionAt itemB 4 0 0)] \<and>
   container.items (fst (addItem containerWithA itemB (positionAt itemB 0 0 0))) =
     [placed itemA (positionAt itemA 0 0 0)] \<and>
   no_overlap (foldl applyOperation containerWithA
      [Add itemB (positionAt itemB 0 0 0), Add itemB (positionAt itemB 4 0 0), Remove ''A'']) \<and>
   list_all no_overlap twoColumns \<and>
   list_all no_overlap (containerMap (rearrangeForUnplacedItems_state storeWithCube [columnH] twoColumns)) \<and>
   storeNoOverlap smallStore \<and>
   storeNoOverlap (fst (placeItem smallStore ''B'' ''u'' None ''C1'' (positionAt itemB 4 0 0)))"
proof -
  have a: "no_overlap containerWithA" by code_simp
  have f: "canFitItem containerWithA itemB (positionAt itemB 4 0 0)" by code_simp
  have g: "\<not> canFitItem containerWithA itemB (positionAt itemB 0 0 0)" by code_simp
  have xs: "container.items containerWithA = [placed itemA (positionAt itemA 0 0 0)]"
    by (simp add: containerWithA_def bin_def)
  have t: "list_all no_overlap twoColumns" by code_simp
  have s: "storeNoOverlap smallStore"
    using a by (auto simp: storeNoOverlap_def smallStore_def storeOf_def getContainer_def
        split: if_splits)
  note p = container_records_stay_disjoint [where c = containerWithA and i = "''A''" and
      it = itemB and pos = "positionAt itemB 4 0 0" and
      ops = "[Add itemB (positionAt itemB 0 0 0), Add itemB (positionAt itemB 4 0 0), Remove ''A'']"
      and cmap = twoColumns and db = storeWithCube and unplacedItems = "[columnH]"
      and sdb = smallStore and j = "''B''" and u = "''u''" and ts = None and cid = "''C1''"
      and pos' = "positionAt itemB 4 0 0" and its = "[] :: item list" and cs = "[]"]
  have 1: "container.items (fst (addItem containerWithA itemB (positionAt itemB 4 0 0))) =
     [placed itemA (positionAt itemA 0 0 0), placed itemB (positionAt itemB 4 0 0)]"
    using container_records_stay_disjoint [THEN conjunct1, of containerWithA itemB
        "positionAt itemB 4 0 0"] f xs
    by simp
  have 2: "container.items (fst (addItem containerWithA itemB (positionAt itemB 0 0 0))) =
     [placed itemA (positionAt itemA 0 0 0)]"
    using container_records_stay_disjoint [THEN conjunct1, of containerWithA itemB
        "positionAt itemB 0 0 0"] g xs
    by simp
  from p a t s 1 2 show ?thesis by blast
qed

section \<open>Where the placement service departs from its specification\<close>

text \<open>
  The branch that puts an evicted record back can never succeed: the item found no
  position before the removal and one after it, so that position overlaps the removed
  record, and once the item is added there the old position of the record is taken.
\<close>

lemma find_spliceFirst:
  "find (\<lambda>it. itemId it = i) xs = Some r \<Longrightarrow> set xs \<subseteq> insert r (set (spliceFirst i xs))"
  by (induction xs) (auto split: if_splits)

lemma put_back_refused:
  assumes none: "findPositionInContainer it c = None"
    and rem: "removeItem c i = (c', Some r)"
    and fit: "findPositionInContainer it c' = Some p"
  shows "itemsOverlap (position r) p"
    and "\<not> snd (addItem (fst (addItem c' it p)) r (position r))"
proof -
  from rem have f: "find (\<lambda>it. itemId it = i) (container.items c) = Some r"
    and c': "c' = c\<lparr>container.items := spliceFirst i (container.items c)\<rparr>"
    by (auto simp: removeItem_def split: option.splits)
  from findPosition_Some_first [OF fit] obtain x y z where
    p: "p = positionAt it x y z" "canFitItem c' it p" by blast
  from none p(1) have "\<not> canFitItem c it p" by (simp add: findPosition_None_iff)
  with p(2) c' obtain q where q: "q \<in> set (container.items c)" "itemsOverlap (position q) p"
    by (auto simp: canFitItem_iff)
  from p(2) c' have "\<forall>q \<in> set (spliceFirst i (container.items c)). \<not> itemsOverlap (position q) p"
    by (simp add: canFitItem_iff)
  with q find_spliceFirst [OF f] show ov: "itemsOverlap (position r) p" by auto
  have "placed it p \<in> set (container.items (fst (addItem c' it p)))"
    using p(2) by (simp add: addItem_def)
  moreover have "itemsOverlap (position (placed it p)) (position r)"
    using ov by (simp add: itemsOverlap_sym)
  ultimately have "\<not> (\<forall>q \<in> set (container.items (fst (addItem c' it p))).
      \<not> itemsOverlap (position q) (position r))"
    by blast
  then have "\<not> canFitItem (fst (addItem c' it p)) r (position r)"
    by (simp only: canFitItem_iff) blast
  then show "\<not> snd (addItem (fst (addItem c' it p)) r (position r))"
    by (simp add: addItem_def)
qed

text \<open>
  Claim C1 fails on the code. \<open>L\<close> fills the only container and \<open>H\<close> evicts it; no
  other container exists, so the pass records the step that places \<open>L\<close> back at its old
  position and calls \<^const>\<open>addItem\<close> there, which refuses: \<open>H\<close> now overlaps that
  position. After the pass \<open>L\<close> is in no container. A batch placement of \<open>L\<close>
  (resubmitted with priority 10) and \<open>H\<close> into the empty \<open>C1\<close> ends the same way.
\<close>

theorem rearrange_loses_evicted_item:
  "allItemIds [fullContainer] = [''L''] \<and>
   allItemIds (containerMap (rearrangeForUnplacedItems_state storeWithL [itemH] [fullContainer]))
     = [''H''] \<and>
   actionsOf (snd (rearrangeForUnplacedItems storeWithL [itemH] [fullContainer]))
     = [(''remove'', ''L''), (''place'', ''H''), (''place'', ''L'')] \<and>
   placedIn (fst (rearrangeForUnplacedItems storeWithL [itemH] [fullContainer]))
     = [(''H'', ''C1'')] \<and>
   allItemIds (findOptimalPlacement_containers storeWithL [box ''L'' 10 10 10 10, itemH] [emptyC1])
     = [''H'']"
  by code_simp

text \<open>
  Claim C4 fails on the code. After the eviction in \<open>C1\<close> has placed \<open>h\<close>, the loop over
  the containers goes on: \<open>h\<close> fits in \<open>C2\<close> above the re-homed \<open>l\<close> and is placed a
  second time. The same happens within a batch placement: \<open>H\<close> evicts \<open>L\<close> from \<open>C1\<close>
  and then \<open>M\<close> from \<open>C2\<close>, and is placed in both.
\<close>

theorem rearrange_places_item_twice:
  "placedIn (fst (rearrangeForUnplacedItems storeWithCube [columnH] twoColumns))
     = [(''h'', ''C1''), (''h'', ''C2'')] \<and>
   map itemIds (containerMap (rearrangeForUnplacedItems_state storeWithCube [columnH] twoColumns))
     = [[''h''], [''l'', ''h'']] \<and>
   actionsOf (snd (rearrangeForUnplacedItems storeWithCube [columnH] twoColumns))
     = [(''remove'', ''l''), (''place'', ''h''), (''place'', ''l'')] \<and>
   placedIn (placementResult.placements (findOptimalPlacement storeWithLM batchLMH emptyPair))
     = [(''L'', ''C1''), (''M'', ''C2''), (''H'', ''C1''), (''H'', ''C2'')]"
  by code_simp

text \<open>
  Claim C2 fails on the code. The flag is \<^verbatim>\<open>unplacedItems.length === 0 ||
  rearrangements.length > 0\<close>: one recorded rearrangement makes it true. In the batch
  \<open>L, H, X\<close> the item \<open>X\<close> fits nowhere and is in no placement and no container, and the
  call reports success.
\<close>

theorem success_with_unplaced_item:
  "success (findOptimalPlacement storeWithL batch [emptyC1]) \<and>
   placedIn (placementResult.placements (findOptimalPlacement storeWithL batch [emptyC1]))
     = [(''L'', ''C1''), (''H'', ''C1'')] \<and>
   allItemIds (findOptimalPlacement_containers storeWithL batch [emptyC1]) = [''H''] \<and>
   map itemId batch = [''L'', ''H'', ''X'']"
  by code_simp

text \<open>
  Claim C3 fails on the code. The working copy of each container is made with
  \<^verbatim>\<open>items: []\<close>, so the records of a container that is already in use are not seen: \<open>B\<close>
  is given the position of \<open>A\<close>, where \<^const>\<open>findPositionInContainer\<close> on the container
  itself answers \<open>(4, 0, 0)\<close>. The result of a batch placement does not depend on the
  records of the containers supplied.
\<close>

theorem placement_overlaps_existing_item:
  "container.items containerWithA = [placed itemA (positionAt itemA 0 0 0)] \<and>
   placementResult.placements (findOptimalPlacement (storeOf [] [containerWithA]) [itemB] [containerWithA])
     = [\<lparr> placement.itemId = ''B'', placement.containerId = ''C1'',
          placement.position = positionAt itemB 0 0 0 \<rparr>] \<and>
   itemsOverlap (positionAt itemA 0 0 0) (positionAt itemB 0 0 0) \<and>
   findPositionInContainer itemB containerWithA = Some (positionAt itemB 4 0 0)"
  by code_simp

lemma workingCopies_cleared:
  "workingCopies (map (\<lambda>c. c\<lparr>container.items := []\<rparr>) cs) = workingCopies cs"
proof -
  have "foldl (\<lambda>m c. mapSet m (c\<lparr>container.items := []\<rparr>)) m
          (map (\<lambda>c. c\<lparr>container.items := []\<rparr>) cs) =
        foldl (\<lambda>m c. mapSet m (c\<lparr>container.items := []\<rparr>)) m cs" for m
    by (induction cs arbitrary: m) simp_all
  then show ?thesis by (simp add: workingCopies_def)
qed

lemma findOptimalPlacement_ignores_occupancy:
  "findOptimalPlacement db its (map (\<lambda>c. c\<lparr>container.items := []\<rparr>) cs) =
     findOptimalPlacement db its cs"
  by (simp add: findOptimalPlacement_def firstPass_def workingCopies_cleared)


end
